theory Spec2Isabelle
  imports Complex_Main "HOL-Library.Sublist"
begin

section \<open>JavaScript string primitives used by the OpenAI-compatible client\<close>

text \<open>
  The sources hold two variants of the class \<^verbatim>\<open>OpenAICompatibleClient\<close>.  The fetch-based
  variant is \<^verbatim>\<open>src/packages/core/src/core/openaiCompatibleClient.ts\<close>: it has the streaming
  decoder \<^verbatim>\<open>createStreamGenerator\<close>, the character estimate of \<^verbatim>\<open>countTokens\<close> and
  \<^verbatim>\<open>embedContent\<close>.  The variant built on the OpenAI library is the second text of
  \<^verbatim>\<open>src/packages/core/src/config/models.ts\<close>: it has the tool calls, \<^verbatim>\<open>safeParseJSON\<close>,
  \<^verbatim>\<open>extractReasoningContent\<close> and a \<^verbatim>\<open>countTokens\<close> that asks the backend.  Both are embedded
  here; a definition says in its section which variant it is taken from.

  Strings of the program are modelled as \<open>string\<close> (lists of 8-bit characters), read as
  UTF-8 text: an ASCII character is one \<open>char\<close>.  Truthiness of a string
  (\<^verbatim>\<open>if (text)\<close>, \<^verbatim>\<open>x || ''\<close>) is non-emptiness.  The \<^verbatim>\<open>length\<close> of a JavaScript string
  counts UTF-16 code units, not bytes; \<open>jsLength\<close> counts them on the UTF-8 text.

  \<open>splitFirst pat s\<close> cuts \<open>s\<close> at the leftmost occurrence of \<open>pat\<close>; it is the search that
  \<^verbatim>\<open>String.prototype.includes\<close>, \<^verbatim>\<open>split\<close> and a non-greedy regular expression share.
\<close>

fun splitFirst :: "'a list \<Rightarrow> 'a list \<Rightarrow> ('a list \<times> 'a list) option" where
  "splitFirst pat [] = (if pat = [] then Some ([], []) else None)"
| "splitFirst pat (c # cs) =
     (if prefix pat (c # cs) then Some ([], drop (length pat) (c # cs))
      else map_option (\<lambda>(a, b). (c # a, b)) (splitFirst pat cs))"

definition includesStr :: "'a list \<Rightarrow> 'a list \<Rightarrow> bool" where
  \<comment> \<open>\<^verbatim>\<open>s.includes(pat)\<close>\<close>
  "includesStr s pat = (splitFirst pat s \<noteq> None)"

function split :: "'a list \<Rightarrow> 'a list \<Rightarrow> 'a list list" where
  \<comment> \<open>\<^verbatim>\<open>s.split(pat)\<close> with a string separator\<close>
  "split s pat =
     (if pat = [] then map (\<lambda>c. [c]) s
      else case splitFirst pat s of
             None \<Rightarrow> [s]
           | Some (a, r) \<Rightarrow> a # split r pat)"
  by pat_completeness auto
termination
proof (relation "measure (\<lambda>(s, pat). length s)")
  show "wf (measure (\<lambda>(s, pat). length s))"
    by simp
next
  fix s pat :: "'a list" and x2 a r
  assume ne: "pat \<noteq> []" and found: "splitFirst pat s = Some x2" and x2: "(a, r) = x2"
  have "splitFirst pat t = Some (b, r) \<Longrightarrow> length r < length t" for t b
  proof (induction t arbitrary: b)
    case Nil
    with ne show ?case by simp
  next
    case (Cons c cs)
    show ?case
    proof (cases "prefix pat (c # cs)")
      case True
      with Cons.prems ne show ?thesis by auto
    next
      case False
      with Cons.prems obtain b' where "splitFirst pat cs = Some (b', r)"
        by (auto split: if_splits)
      with Cons.IH show ?thesis by fastforce
    qed
  qed
  with found x2 show "((r, pat), (s, pat)) \<in> measure (\<lambda>(s, pat). length s)"
    by auto
qed

declare split.simps [simp del]

fun join :: "'a list list \<Rightarrow> 'a list \<Rightarrow> 'a list" where
  \<comment> \<open>\<^verbatim>\<open>xs.join(sep)\<close>\<close>
  "join [] sep = []"
| "join [x] sep = x"
| "join (x # y # ys) sep = x @ sep @ join (y # ys) sep"

definition utf16Units :: "char \<Rightarrow> nat" where
  \<comment> \<open>what one byte of UTF-8 text adds to the number of UTF-16 code units: a character of one,
      two or three bytes is one unit, counted at its first byte; a character of four bytes is a
      surrogate pair, two units; a continuation byte (\<^verbatim>\<open>0x80\<close> to \<^verbatim>\<open>0xBF\<close>) adds nothing\<close>
  "utf16Units c =
     (let n = (of_char c :: nat)
      in if n < 0x80 then 1 else if n < 0xC0 then 0 else if n < 0xF0 then 1 else 2)"

definition jsLength :: "string \<Rightarrow> nat" where
  \<comment> \<open>\<^verbatim>\<open>s.length\<close>: the number of UTF-16 code units of the text\<close>
  "jsLength s = sum_list (map utf16Units s)"

definition whiteSpaces :: "string list" where
  \<comment> \<open>the characters that \<^verbatim>\<open>trim\<close> strips, each as its UTF-8 bytes: the white space TAB, VT,
      FF, SP, U+00A0, U+1680, U+2000 to U+200A, U+202F, U+205F, U+3000 and U+FEFF, and the
      line terminators LF, CR, U+2028 and U+2029\<close>
  "whiteSpaces =
     [[CHR 0x09], [CHR 0x0A], [CHR 0x0B], [CHR 0x0C], [CHR 0x0D], [CHR 0x20],
      [CHR 0xC2, CHR 0xA0],
      [CHR 0xE1, CHR 0x9A, CHR 0x80],
      [CHR 0xE2, CHR 0x80, CHR 0x80], [CHR 0xE2, CHR 0x80, CHR 0x81],
      [CHR 0xE2, CHR 0x80, CHR 0x82], [CHR 0xE2, CHR 0x80, CHR 0x83],
      [CHR 0xE2, CHR 0x80, CHR 0x84], [CHR 0xE2, CHR 0x80, CHR 0x85],
      [CHR 0xE2, CHR 0x80, CHR 0x86], [CHR 0xE2, CHR 0x80, CHR 0x87],
      [CHR 0xE2, CHR 0x80, CHR 0x88], [CHR 0xE2, CHR 0x80, CHR 0x89],
      [CHR 0xE2, CHR 0x80, CHR 0x8A],
      [CHR 0xE2, CHR 0x80, CHR 0xA8], [CHR 0xE2, CHR 0x80, CHR 0xA9],
      [CHR 0xE2, CHR 0x80, CHR 0xAF],
      [CHR 0xE2, CHR 0x81, CHR 0x9F],
      [CHR 0xE3, CHR 0x80, CHR 0x80],
      [CHR 0xEF, CHR 0xBB, CHR 0xBF]]"

function stripLeading :: "string list \<Rightarrow> string \<Rightarrow> string" where
  \<comment> \<open>removes from the front of \<open>s\<close> every leading occurrence of one of the byte sequences \<open>toks\<close>\<close>
  "stripLeading toks s =
     (case List.find (\<lambda>w. w \<noteq> [] \<and> prefix w s) toks of
        None \<Rightarrow> s
      | Some w \<Rightarrow> stripLeading toks (drop (length w) s))"
  by pat_completeness auto
termination
proof (relation "measure (\<lambda>(toks, s). length s)")
  show "wf (measure (\<lambda>(toks, s). length s))"
    by simp
next
  fix toks :: "string list" and s w :: string
  assume "List.find (\<lambda>w. w \<noteq> [] \<and> prefix w s) toks = Some w"
  then have "w \<noteq> [] \<and> prefix w s"
    by (auto simp: find_Some_iff)
  then show "((toks, drop (length w) s), (toks, s)) \<in> measure (\<lambda>(toks, s). length s)"
    by (auto simp: prefix_def)
qed

declare stripLeading.simps [simp del]

definition trim :: "string \<Rightarrow> string" where
  \<comment> \<open>\<^verbatim>\<open>s.trim()\<close>: white space and line terminators are removed from both ends.  In UTF-8 no
      character's bytes end with the bytes of another character, so the end of the text is
      stripped on the reversed bytes\<close>
  "trim s = rev (stripLeading (map rev whiteSpaces) (rev (stripLeading whiteSpaces s)))"

definition elemAt :: "'a list \<Rightarrow> nat \<Rightarrow> 'a option" where
  \<comment> \<open>\<^verbatim>\<open>xs[i]\<close>: \<^verbatim>\<open>undefined\<close> (here \<open>None\<close>) out of range\<close>
  "elemAt xs i = (if i < length xs then Some (xs ! i) else None)"

section \<open>The canonical (Gemini-style) data model\<close>

text \<open>
  A part is tested by the client only through \<^verbatim>\<open>'text' in part\<close>,
  \<^verbatim>\<open>'functionCall' in part\<close> and \<^verbatim>\<open>'functionResponse' in part\<close>.  A part made by the
  client itself for reasoning text is \<^verbatim>\<open>{text, type: 'thinking'}\<close>; it has a \<^verbatim>\<open>text\<close> field too.
\<close>

datatype json =
    JNull
  | JBool bool
  | JNumber real
  | JString string
  | JArray "json list"
  | JObject "(string \<times> json) list"

datatype part =
    TextPart string
  | ThinkingPart string
  | FunctionCallPart string json
  | FunctionResponsePart json
  | OtherPart

fun partText :: "part \<Rightarrow> string option" where
  \<comment> \<open>\<^verbatim>\<open>'text' in part\<close> and then \<^verbatim>\<open>part.text\<close>\<close>
  "partText (TextPart t) = Some t"
| "partText (ThinkingPart t) = Some t"
| "partText _ = None"

text \<open>
  \<^verbatim>\<open>request.contents\<close> is one item or an array of items; an item is a string, a
  \<^verbatim>\<open>Content\<close> object (\<^verbatim>\<open>role\<close> and \<^verbatim>\<open>parts\<close>, either of which may be missing) or a bare part.
\<close>

record content =
  role :: "string option"
  parts :: "part list option"

datatype content_item =
    StringItem string
  | ContentItem content
  | PartItem part

datatype contents_union =
    Single content_item
  | Many "content_item list"

fun asArray :: "contents_union \<Rightarrow> content_item list" where
  \<comment> \<open>\<^verbatim>\<open>Array.isArray(request.contents) ? request.contents : [request.contents]\<close>\<close>
  "asArray (Many xs) = xs"
| "asArray (Single x) = [x]"

section \<open>Token estimate: \<^verbatim>\<open>countTokens\<close>, fetch-based client\<close>

fun itemParts :: "content_item \<Rightarrow> part list" where
  \<comment> \<open>the filter on \<^verbatim>\<open>'parts' in content\<close> followed by \<^verbatim>\<open>flatMap(content.parts || [])\<close>\<close>
  "itemParts (ContentItem c) = (case parts c of None \<Rightarrow> [] | Some ps \<Rightarrow> ps)"
| "itemParts _ = []"

definition requestTexts :: "contents_union \<Rightarrow> string list" where
  \<comment> \<open>the \<^verbatim>\<open>text\<close> of every part that has one, in order\<close>
  "requestTexts cs = List.map_filter partText (concat (map itemParts (asArray cs)))"

definition countText :: "contents_union \<Rightarrow> string" where
  \<comment> \<open>the variable \<^verbatim>\<open>text\<close> of \<^verbatim>\<open>countTokens\<close>: the texts joined with one space.  The only
      falsy value of \<^verbatim>\<open>request.contents\<close> within its type is the empty string, for which the
      guard \<^verbatim>\<open>if (request.contents)\<close> leaves the empty text, as the chain of filters does\<close>
  "countText cs = join (requestTexts cs) '' ''"

definition countTokens :: "contents_union \<Rightarrow> nat" where
  \<comment> \<open>\<^verbatim>\<open>Math.ceil(text.length * 0.25)\<close>; the product is exact in binary floating point\<close>
  "countTokens cs = nat \<lceil>real (jsLength (countText cs)) * 0.25\<rceil>"

definition totalCharacters :: "contents_union \<Rightarrow> nat" where
  \<comment> \<open>the characters of all textual parts, each text measured as \<^verbatim>\<open>length\<close> measures it\<close>
  "totalCharacters cs = sum_list (map jsLength (requestTexts cs))"

definition fiveShortParts :: contents_union where
  \<comment> \<open>an example input: one user message of five one-character text parts\<close>
  "fiveShortParts = Single (ContentItem \<lparr>role = Some ''user'',
     parts = Some [TextPart ''a'', TextPart ''a'', TextPart ''a'', TextPart ''a'', TextPart ''a'']\<rparr>)"

definition oneLongPart :: contents_union where
  \<comment> \<open>an example input: one user message of one six-character text part\<close>
  "oneLongPart = Single (ContentItem \<lparr>role = Some ''user'', parts = Some [TextPart ''aaaaaa'']\<rparr>)"

definition oneShortPart :: contents_union where
  \<comment> \<open>an example input: one user message of one two-character text part\<close>
  "oneShortPart = Single (ContentItem \<lparr>role = Some ''user'', parts = Some [TextPart ''ab'']\<rparr>)"

definition twoHanCharacters :: contents_union where
  \<comment> \<open>an example input: one user message of one text part, the characters U+601D and U+8003,
      three bytes each in UTF-8\<close>
  "twoHanCharacters = Single (ContentItem \<lparr>role = Some ''user'',
     parts = Some [TextPart [CHR 0xE6, CHR 0x80, CHR 0x9D, CHR 0xE8, CHR 0x80, CHR 0x83]]\<rparr>)"

section \<open>Configuration, requests and the HTTP boundary\<close>

datatype ModelProvider = GEMINI | DOUBAO | OPENAI | ANTHROPIC

fun providerName :: "ModelProvider \<Rightarrow> string" where
  \<comment> \<open>the string value of the enumeration, as a template literal prints it\<close>
  "providerName GEMINI = ''gemini''"
| "providerName DOUBAO = ''doubao''"
| "providerName OPENAI = ''openai''"
| "providerName ANTHROPIC = ''anthropic''"

record ModelConfig =
  provider :: ModelProvider
  model :: string
  apiKey :: string
  baseUrl :: "string option"
  thinkSupport :: bool
  embeddingModel :: "string option"

text \<open>
  \<^verbatim>\<open>request.config\<close>: the fields the client reads.  \<open>thinkingConfig = None\<close> is a config without
  the key; \<open>Some None\<close> is a thinking config without \<^verbatim>\<open>includeThoughts\<close>.  Numbers are reals
  (the value \<^verbatim>\<open>NaN\<close>, falsy as well, is not represented).
\<close>

record GenerateContentConfig =
  temperature :: "real option"
  maxOutputTokens :: "real option"
  thinkingConfig :: "bool option option"

record GenerateContentParameters =
  contents :: contents_union
  config :: "GenerateContentConfig option"

record OpenAIMessage =
  wireRole :: string
  wireContent :: string

record RequestBody =
  body_model :: string
  body_messages :: "OpenAIMessage list"
  body_temperature :: real
  body_max_tokens :: real
  body_stream :: bool
  body_include_reasoning :: bool

record 'a HttpRequest =
  url :: string
  authorization :: string
  contentType :: string
  payload :: 'a

record 'b HttpResponse =
  ok :: bool
  status :: nat
  statusText :: string
  body :: 'b

datatype js_error = Error string

function showNat :: "nat \<Rightarrow> string" where
  \<comment> \<open>a number in a template literal: its decimal digits\<close>
  "showNat n = (if n < 10 then [''0123456789'' ! n] else showNat (n div 10) @ [''0123456789'' ! (n mod 10)])"
  by pat_completeness auto
termination
  by (relation "measure id") auto

declare showNat.simps [simp del]

definition httpError :: "'b HttpResponse \<Rightarrow> js_error" where
  \<comment> \<open>\<^verbatim>\<open>new Error(`HTTP ${response.status}: ${response.statusText}`)\<close>\<close>
  "httpError r = Error (''HTTP '' @ showNat (status r) @ '': '' @ statusText r)"

definition numberOr :: "real option \<Rightarrow> real \<Rightarrow> real" where
  \<comment> \<open>\<^verbatim>\<open>x || d\<close> for a number that may be missing: zero is falsy\<close>
  "numberOr v d = (case v of None \<Rightarrow> d | Some x \<Rightarrow> if x = 0 then d else x)"

definition includeThoughtsOf :: "GenerateContentParameters \<Rightarrow> bool" where
  \<comment> \<open>truthiness of \<^verbatim>\<open>hasThinkingConfig && request.config.thinkingConfig?.includeThoughts\<close>\<close>
  "includeThoughtsOf request =
     (case config request of
        None \<Rightarrow> False
      | Some c \<Rightarrow> (case thinkingConfig c of Some (Some b) \<Rightarrow> b | _ \<Rightarrow> False))"

section \<open>Canonical messages to wire messages\<close>

fun contentToMessages :: "content_item \<Rightarrow> OpenAIMessage list" where
  \<comment> \<open>the body of the loop over \<^verbatim>\<open>contents\<close>: no message or one message per item\<close>
  "contentToMessages (StringItem s) = []"
| "contentToMessages (PartItem p) = []"
| "contentToMessages (ContentItem c) =
     (case (role c, parts c) of
        (Some r, Some ps) \<Rightarrow>
          (let role' = (if r = ''model'' then ''assistant'' else r);
               text = join (List.map_filter partText ps) [CHR 0x0A]
           in if text \<noteq> [] then [\<lparr>wireRole = role', wireContent = text\<rparr>] else [])
      | _ \<Rightarrow> [])"

definition buildMessages :: "contents_union \<Rightarrow> OpenAIMessage list" where
  \<comment> \<open>the array \<^verbatim>\<open>messages\<close> after the loop\<close>
  "buildMessages cs = concat (map contentToMessages (asArray cs))"

definition buildApiUrl :: "ModelConfig \<Rightarrow> string" where
  "buildApiUrl cfg =
     (let apiUrl = (case baseUrl cfg of None \<Rightarrow> [] | Some u \<Rightarrow> u)
      in if \<not> includesStr apiUrl ''chat/completions''
         then (if suffix ''/'' apiUrl then apiUrl @ ''chat/completions''
               else apiUrl @ ''/chat/completions'')
         else apiUrl)"

definition buildRequestBody :: "ModelConfig \<Rightarrow> GenerateContentParameters \<Rightarrow> bool \<Rightarrow> RequestBody" where
  \<comment> \<open>\<^verbatim>\<open>requestBody\<close> of \<^verbatim>\<open>generateContent\<close> (\<open>stream = False\<close>) and of
      \<^verbatim>\<open>generateContentStream\<close> (\<open>stream = True\<close>); a missing \<^verbatim>\<open>include_reasoning\<close> is \<open>False\<close>\<close>
  "buildRequestBody cfg request stream =
     \<lparr>body_model = model cfg,
      body_messages = buildMessages (contents request),
      body_temperature = numberOr (case config request of None \<Rightarrow> None | Some c \<Rightarrow> temperature c) 0.7,
      body_max_tokens = numberOr (case config request of None \<Rightarrow> None | Some c \<Rightarrow> maxOutputTokens c) 2048,
      body_stream = stream,
      body_include_reasoning = (includeThoughtsOf request \<and> includesStr (model cfg) ''thinking'')\<rparr>"

definition chatRequest :: "ModelConfig \<Rightarrow> RequestBody \<Rightarrow> RequestBody HttpRequest" where
  \<comment> \<open>the \<^verbatim>\<open>POST\<close> that both generation calls send\<close>
  "chatRequest cfg b =
     \<lparr>url = buildApiUrl cfg,
      authorization = ''Bearer '' @ apiKey cfg,
      contentType = ''application/json'',
      payload = b\<rparr>"


section \<open>Wire responses and canonical responses\<close>

text \<open>
  The wire choice carries the fields that one or the other variant of the client reads:
  \<^verbatim>\<open>message.content\<close>, \<^verbatim>\<open>message.reasoning_content\<close>, \<^verbatim>\<open>message.tool_calls\<close> and
  \<^verbatim>\<open>finish_reason\<close>.  A tool call is \<^verbatim>\<open>{function: {name, arguments}}\<close>.
\<close>

record ToolCall =
  functionName :: string
  functionArguments :: string

record OpenAIChoice =
  messageContent :: "string option"
  reasoningContent :: "string option"
  toolCalls :: "ToolCall list option"
  finish_reason :: "string option"

record Usage =
  prompt_tokens :: nat
  completion_tokens :: nat
  total_tokens :: nat

record OpenAIResponse =
  choices :: "OpenAIChoice list"
  usage :: "Usage option"

datatype FinishReason = STOP | OTHER

record Candidate =
  candidateContent :: content
  finishReason :: FinishReason
  index :: nat

record UsageMetadata =
  promptTokenCount :: nat
  candidatesTokenCount :: nat
  totalTokenCount :: nat

record GenerateContentResponse =
  candidates :: "Candidate list"
  functionCalls :: "(string \<times> json) list option"
  usageMetadata :: "UsageMetadata option"

definition usageOf :: "Usage option \<Rightarrow> UsageMetadata option" where
  "usageOf u = map_option (\<lambda>x. \<lparr>promptTokenCount = prompt_tokens x,
     candidatesTokenCount = completion_tokens x, totalTokenCount = total_tokens x\<rparr>) u"

definition modelCandidate :: "part list \<Rightarrow> FinishReason \<Rightarrow> Candidate" where
  \<comment> \<open>\<^verbatim>\<open>{content: {parts, role: 'model'}, finishReason, index: 0}\<close>\<close>
  "modelCandidate ps fr =
     \<lparr>candidateContent = \<lparr>role = Some ''model'', parts = Some ps\<rparr>, finishReason = fr, index = 0\<rparr>"

section \<open>Reasoning text in a complete response\<close>

definition thinkingPatterns :: "(string \<times> string) list" where
  \<comment> \<open>the three regular expressions \<^verbatim>\<open>open(.*?)close\<close> (flag \<^verbatim>\<open>s\<close>), as pairs of delimiters; the
      two pairs of Chinese delimiters are given by their UTF-8 bytes\<close>
  "thinkingPatterns =
     [(''<thinking>'', ''</thinking>''),
      (''**'' @ [CHR 0xE6, CHR 0x80, CHR 0x9D, CHR 0xE8, CHR 0x80, CHR 0x83, CHR 0xE8, CHR 0xBF, CHR 0x87,
                CHR 0xE7, CHR 0xA8, CHR 0x8B] @ ''**'',
       ''**'' @ [CHR 0xE5, CHR 0x9B, CHR 0x9E, CHR 0xE7, CHR 0xAD, CHR 0x94] @ ''**''),
      ([CHR 0xE3, CHR 0x80, CHR 0x90, CHR 0xE6, CHR 0x80, CHR 0x9D, CHR 0xE8, CHR 0x80, CHR 0x83,
        CHR 0xE3, CHR 0x80, CHR 0x91],
       [CHR 0xE3, CHR 0x80, CHR 0x90, CHR 0xE5, CHR 0x9B, CHR 0x9E, CHR 0xE7, CHR 0xAD, CHR 0x94,
        CHR 0xE3, CHR 0x80, CHR 0x91])]"

definition matchPattern :: "string \<times> string \<Rightarrow> string \<Rightarrow> (string \<times> string) option" where
  \<comment> \<open>\<^verbatim>\<open>text.match(pattern)\<close>: \<open>Some (match[0], match[1])\<close> for the leftmost opening delimiter
      and the nearest closing delimiter after it\<close>
  "matchPattern pat text =
     (case splitFirst (fst pat) text of
        None \<Rightarrow> None
      | Some (before, rest) \<Rightarrow>
          (case splitFirst (snd pat) rest of
             None \<Rightarrow> None
           | Some (inner, after) \<Rightarrow> Some (fst pat @ inner @ snd pat, inner)))"

definition replaceFirst :: "string \<Rightarrow> string \<Rightarrow> string \<Rightarrow> string" where
  \<comment> \<open>\<^verbatim>\<open>s.replace(pat, rep)\<close> with a string pattern: the first occurrence only\<close>
  "replaceFirst s pat rep =
     (case splitFirst pat s of None \<Rightarrow> s | Some (a, b) \<Rightarrow> a @ rep @ b)"

fun extractThinking :: "(string \<times> string) list \<Rightarrow> string \<Rightarrow> string \<times> string" where
  \<comment> \<open>the loop over the patterns: \<open>(thinkingContent, responseText)\<close> after it\<close>
  "extractThinking [] text = ([], text)"
| "extractThinking (pat # pats) text =
     (case matchPattern pat text of
        Some (m0, m1) \<Rightarrow> (trim m1, trim (replaceFirst text m0 []))
      | None \<Rightarrow> extractThinking pats text)"

section \<open>\<^verbatim>\<open>generateContent\<close>, fetch-based client\<close>

text \<open>
  From here to \<^verbatim>\<open>embedContent\<close>, the definitions embed the fetch-based variant.
\<close>

definition firstChoice :: "OpenAIResponse \<Rightarrow> OpenAIChoice option" where
  \<comment> \<open>\<^verbatim>\<open>data.choices[0]\<close>\<close>
  "firstChoice data = elemAt (choices data) 0"

definition fromResponse :: "bool \<Rightarrow> OpenAIResponse \<Rightarrow> GenerateContentResponse" where
  \<comment> \<open>everything after \<^verbatim>\<open>await response.json()\<close>\<close>
  "fromResponse includeThoughts data =
     (let responseText0 =
            (case firstChoice data of
               None \<Rightarrow> []
             | Some c \<Rightarrow> (case messageContent c of None \<Rightarrow> [] | Some s \<Rightarrow> s));
          (thinkingContent, responseText) =
            (if includeThoughts \<and> responseText0 \<noteq> []
             then extractThinking thinkingPatterns responseText0
             else ([], responseText0));
          ps = (if thinkingContent \<noteq> [] then [ThinkingPart thinkingContent] else [])
               @ (if responseText \<noteq> [] then [TextPart responseText] else []);
          wireFinish = (case firstChoice data of None \<Rightarrow> None | Some c \<Rightarrow> finish_reason c)
      in \<lparr>candidates =
            [modelCandidate (if length ps > 0 then ps else [TextPart responseText])
               (if wireFinish = Some ''stop'' then STOP else OTHER)],
          functionCalls = None,
          usageMetadata = usageOf (usage data)\<rparr>)"

text \<open>
  The network is the parameter \<open>fetch\<close>: it either rejects or answers.  Each call returns the
  requests it has sent, in order, together with its result.
\<close>

definition generateContent ::
  "ModelConfig \<Rightarrow> (RequestBody HttpRequest \<Rightarrow> js_error + OpenAIResponse HttpResponse)
   \<Rightarrow> GenerateContentParameters
   \<Rightarrow> RequestBody HttpRequest list \<times> (js_error + GenerateContentResponse)" where
  "generateContent cfg fetch request =
     (let req = chatRequest cfg (buildRequestBody cfg request False)
      in ([req],
          case fetch req of
            Inl e \<Rightarrow> Inl e
          | Inr response \<Rightarrow>
              if \<not> ok response then Inl (httpError response)
              else Inr (fromResponse (includeThoughtsOf request) (body response))))"


section \<open>The streaming decoder: \<^verbatim>\<open>createStreamGenerator\<close>\<close>

datatype channel = Main | Thinking

definition createStreamResponse :: "string \<Rightarrow> channel \<Rightarrow> GenerateContentResponse" where
  "createStreamResponse text ty =
     \<lparr>candidates =
        [modelCandidate [case ty of Thinking \<Rightarrow> ThinkingPart text | Main \<Rightarrow> TextPart text] STOP],
      functionCalls = None,
      usageMetadata = None\<rparr>"

text \<open>The variables of the generator that live across records.\<close>

record StreamState =
  isInThinking :: bool
  thinkingContent :: string
  mainContent :: string

definition initialState :: StreamState where
  "initialState = \<lparr>isInThinking = False, thinkingContent = [], mainContent = []\<rparr>"

definition openingBranch :: "StreamState \<Rightarrow> string \<Rightarrow> StreamState \<times> GenerateContentResponse list" where
  \<comment> \<open>the body of \<^verbatim>\<open>if (content.includes('<thinking>'))\<close>\<close>
  "openingBranch st content =
     (let st1 = st\<lparr>isInThinking := True\<rparr>;
          ps = split content ''<thinking>'';
          (st2, out) =
            (case elemAt ps 0 of
               Some p0 \<Rightarrow>
                 if p0 \<noteq> []
                 then (st1\<lparr>mainContent := mainContent st1 @ p0\<rparr>, [createStreamResponse p0 Main])
                 else (st1, [])
             | None \<Rightarrow> (st1, []));
          st3 =
            (case elemAt ps 1 of
               Some p1 \<Rightarrow> if p1 \<noteq> [] then st2\<lparr>thinkingContent := thinkingContent st2 @ p1\<rparr> else st2
             | None \<Rightarrow> st2)
      in (st3, out))"

definition closingBranch :: "StreamState \<Rightarrow> string \<Rightarrow> StreamState \<times> GenerateContentResponse list" where
  \<comment> \<open>the body of \<^verbatim>\<open>if (content.includes('</thinking>'))\<close>\<close>
  "closingBranch st content =
     (let st1 = st\<lparr>isInThinking := False\<rparr>;
          ps = split content ''</thinking>'';
          st2 =
            (case elemAt ps 0 of
               Some p0 \<Rightarrow> if p0 \<noteq> [] then st1\<lparr>thinkingContent := thinkingContent st1 @ p0\<rparr> else st1
             | None \<Rightarrow> st1);
          (st3, out1) =
            (if thinkingContent st2 \<noteq> []
             then (st2\<lparr>thinkingContent := []\<rparr>, [createStreamResponse (thinkingContent st2) Thinking])
             else (st2, []));
          (st4, out2) =
            (case elemAt ps 1 of
               Some p1 \<Rightarrow>
                 if p1 \<noteq> []
                 then (st3\<lparr>mainContent := mainContent st3 @ p1\<rparr>, [createStreamResponse p1 Main])
                 else (st3, [])
             | None \<Rightarrow> (st3, []))
      in (st4, out1 @ out2))"

definition processContent ::
  "bool \<Rightarrow> StreamState \<Rightarrow> string \<Rightarrow> StreamState \<times> GenerateContentResponse list" where
  \<comment> \<open>the body of \<^verbatim>\<open>if (content)\<close>: the new state and what is yielded, in order\<close>
  "processContent includeThoughts st content =
     (if includeThoughts \<and> includesStr content ''<thinking>'' then openingBranch st content
      else if includeThoughts \<and> includesStr content ''</thinking>'' then closingBranch st content
      else if isInThinking st
      then (st\<lparr>thinkingContent := thinkingContent st @ content\<rparr>, [createStreamResponse content Thinking])
      else (st\<lparr>mainContent := mainContent st @ content\<rparr>, [createStreamResponse content Main]))"

text \<open>
  A streamed record is read through its declared wire type: \<^verbatim>\<open>choices\<close>, the first choice's
  \<^verbatim>\<open>delta\<close> and its \<^verbatim>\<open>content\<close>, each of which may be missing.  \<^verbatim>\<open>JSON.parse\<close> is the parameter
  \<open>parse\<close>; \<open>None\<close> stands for a payload on which the \<^verbatim>\<open>try\<close> block throws before it reads the
  content (a syntax error, or the JSON value \<^verbatim>\<open>null\<close>).
\<close>

datatype StreamDelta = StreamDelta (deltaContent: "string option")

datatype StreamChoice = StreamChoice (delta: "StreamDelta option")

datatype StreamChunk = StreamChunk (chunkChoices: "StreamChoice list option")

definition chunkContent :: "StreamChunk \<Rightarrow> string" where
  \<comment> \<open>\<^verbatim>\<open>parsed.choices?.[0]?.delta?.content || ''\<close>\<close>
  "chunkContent parsed =
     (case chunkChoices parsed of
        None \<Rightarrow> []
      | Some cs \<Rightarrow>
          (case elemAt cs 0 of
             None \<Rightarrow> []
           | Some c \<Rightarrow>
               (case delta c of
                  None \<Rightarrow> []
                | Some d \<Rightarrow> (case deltaContent d of None \<Rightarrow> [] | Some s \<Rightarrow> s))))"

datatype 'a step = Continue 'a | Return

definition processLine ::
  "(string \<Rightarrow> StreamChunk option) \<Rightarrow> bool \<Rightarrow> StreamState \<Rightarrow> string
   \<Rightarrow> StreamState step \<times> GenerateContentResponse list" where
  \<comment> \<open>one iteration of \<^verbatim>\<open>for (const line of lines)\<close>; \<open>Return\<close> is the \<^verbatim>\<open>return\<close> at \<^verbatim>\<open>[DONE]\<close>\<close>
  "processLine parse includeThoughts st line =
     (if trim line = [] then (Continue st, [])
      else if prefix ''data: '' line then
        (let data = drop 6 line
         in if data = ''[DONE]'' then (Return, [])
            else (case parse data of
                    None \<Rightarrow> (Continue st, [])
                  | Some parsed \<Rightarrow>
                      (let content = chunkContent parsed
                       in if content \<noteq> []
                          then (let (st', out) = processContent includeThoughts st content
                                in (Continue st', out))
                          else (Continue st, []))))
      else (Continue st, []))"

fun processLines ::
  "(string \<Rightarrow> StreamChunk option) \<Rightarrow> bool \<Rightarrow> StreamState \<Rightarrow> string list
   \<Rightarrow> StreamState step \<times> GenerateContentResponse list" where
  "processLines parse includeThoughts st [] = (Continue st, [])"
| "processLines parse includeThoughts st (line # rest) =
     (case processLine parse includeThoughts st line of
        (Return, out) \<Rightarrow> (Return, out)
      | (Continue st', out) \<Rightarrow>
          (let (r, out') = processLines parse includeThoughts st' rest in (r, out @ out')))"

text \<open>
  The body of the response is what its reader delivers: the decoded text of each read, and
  how the stream ends (\<^verbatim>\<open>done\<close>, or a read that rejects).  The generator's result is what it
  yields, in order, and how it completes: \<open>None\<close> when it returns, \<open>Some e\<close> when it throws \<open>e\<close>.
\<close>

datatype stream_end = Done | ReadFails js_error

record StreamBody =
  reads :: "string list"
  ending :: stream_end

fun readLoop ::
  "(string \<Rightarrow> StreamChunk option) \<Rightarrow> bool \<Rightarrow> stream_end \<Rightarrow> StreamState \<Rightarrow> string \<Rightarrow> string list
   \<Rightarrow> GenerateContentResponse list \<times> js_error option" where
  \<comment> \<open>\<^verbatim>\<open>while (true)\<close>, with the carry-over \<^verbatim>\<open>buffer\<close>\<close>
  "readLoop parse includeThoughts e st buffer [] =
     (case e of Done \<Rightarrow> ([], None) | ReadFails err \<Rightarrow> ([], Some err))"
| "readLoop parse includeThoughts e st buffer (v # rest) =
     (let lines = split (buffer @ v) [CHR 0x0A];
          buffer' = (if lines = [] then [] else last lines);
          lines' = butlast lines
      in case processLines parse includeThoughts st lines' of
           (Return, out) \<Rightarrow> (out, None)
         | (Continue st', out) \<Rightarrow>
             (let (out', r) = readLoop parse includeThoughts e st' buffer' rest in (out @ out', r)))"

definition createStreamGenerator ::
  "(string \<Rightarrow> StreamChunk option) \<Rightarrow> StreamBody option HttpResponse \<Rightarrow> bool
   \<Rightarrow> GenerateContentResponse list \<times> js_error option" where
  "createStreamGenerator parse response includeThoughts =
     (case body response of
        None \<Rightarrow> ([], Some (Error ''No response body reader available''))
      | Some b \<Rightarrow> readLoop parse includeThoughts (ending b) initialState [] (reads b))"

definition generateContentStream ::
  "ModelConfig \<Rightarrow> (string \<Rightarrow> StreamChunk option)
   \<Rightarrow> (RequestBody HttpRequest \<Rightarrow> js_error + StreamBody option HttpResponse)
   \<Rightarrow> GenerateContentParameters
   \<Rightarrow> RequestBody HttpRequest list \<times> (js_error + GenerateContentResponse list \<times> js_error option)" where
  "generateContentStream cfg parse fetch request =
     (let req = chatRequest cfg (buildRequestBody cfg request True)
      in ([req],
          case fetch req of
            Inl e \<Rightarrow> Inl e
          | Inr response \<Rightarrow>
              if \<not> ok response then Inl (httpError response)
              else Inr (createStreamGenerator parse response (includeThoughtsOf request))))"

section \<open>\<^verbatim>\<open>embedContent\<close>\<close>

record EmbeddingBody =
  embedModel :: string
  embedInput :: "content_item list"

definition embedContent ::
  "ModelConfig \<Rightarrow> (EmbeddingBody HttpRequest \<Rightarrow> js_error + real list list HttpResponse)
   \<Rightarrow> contents_union
   \<Rightarrow> EmbeddingBody HttpRequest list \<times> (js_error + real list list)" where
  \<comment> \<open>the body of the response is \<^verbatim>\<open>data.data\<close>, one vector per item\<close>
  "embedContent cfg fetch cs =
     (case embeddingModel cfg of
        None \<Rightarrow> ([], Inl (Error (''Embedding model not configured for provider: '' @ providerName (provider cfg))))
      | Some m \<Rightarrow>
          if m = [] then ([], Inl (Error (''Embedding model not configured for provider: '' @ providerName (provider cfg))))
          else
            (let req = \<lparr>url = (case baseUrl cfg of None \<Rightarrow> ''undefined'' | Some u \<Rightarrow> u) @ ''/embeddings'',
                        authorization = ''Bearer '' @ apiKey cfg,
                        contentType = ''application/json'',
                        payload = \<lparr>embedModel = m, embedInput = asArray cs\<rparr>\<rparr>
             in ([req],
                 case fetch req of
                   Inl e \<Rightarrow> Inl e
                 | Inr response \<Rightarrow>
                     if \<not> ok response then Inl (httpError response) else Inr (body response))))"


definition anthropicConfig :: ModelConfig where
  \<comment> \<open>an example configuration: the Anthropic provider, whose embedding model is the empty string\<close>
  "anthropicConfig = \<lparr>provider = ANTHROPIC, model = ''claude-3-5-sonnet-20241022'', apiKey = ''k'',
     baseUrl = Some ''https://api.anthropic.com'', thinkSupport = False, embeddingModel = Some []\<rparr>"

section \<open>\<^verbatim>\<open>generateContent\<close>, client built on the OpenAI library\<close>

text \<open>
  The second variant of \<^verbatim>\<open>OpenAICompatibleClient\<close> (the one with \<^verbatim>\<open>safeParseJSON\<close>) reads tool
  calls and the field \<^verbatim>\<open>reasoning_content\<close>.  \<^verbatim>\<open>JSON.parse\<close> is the parameter \<open>parse\<close>; \<open>None\<close> is
  a syntax error.
\<close>

definition safeParseJSON :: "(string \<Rightarrow> json option) \<Rightarrow> string \<Rightarrow> json" where
  "safeParseJSON parse jsonString = (case parse jsonString of Some v \<Rightarrow> v | None \<Rightarrow> JObject [])"

definition extractReasoningContent :: "OpenAIChoice \<Rightarrow> string \<times> string" where
  \<comment> \<open>\<open>(content, reasoning)\<close>\<close>
  "extractReasoningContent c =
     (let mainText = (case messageContent c of None \<Rightarrow> [] | Some s \<Rightarrow> s);
          reasoningText = (case reasoningContent c of None \<Rightarrow> [] | Some s \<Rightarrow> s)
      in if reasoningText \<noteq> [] then (mainText, reasoningText)
         else if mainText \<noteq> []
         then (let (thinking, text) = extractThinking thinkingPatterns mainText in (text, thinking))
         else (mainText, []))"

definition toolCallArgs :: "(string \<Rightarrow> json option) \<Rightarrow> ToolCall \<Rightarrow> json" where
  \<comment> \<open>\<^verbatim>\<open>this.safeParseJSON(toolCall.function.arguments || '{}')\<close>\<close>
  "toolCallArgs parse tc =
     safeParseJSON parse (if functionArguments tc \<noteq> [] then functionArguments tc else ''{}'')"

definition fromCompletion ::
  "(string \<Rightarrow> json option) \<Rightarrow> OpenAIResponse \<Rightarrow> js_error + GenerateContentResponse" where
  \<comment> \<open>everything after \<^verbatim>\<open>await this.client.chat.completions.create(requestOptions)\<close>; the
      \<^verbatim>\<open>catch\<close> block throws the error again\<close>
  "fromCompletion parse response =
     (case firstChoice response of
        None \<Rightarrow> Inl (Error ''No choices returned from API'')
      | Some choice \<Rightarrow>
          if (case toolCalls choice of None \<Rightarrow> False | Some tcs \<Rightarrow> length tcs > 0)
          then
            (let tcs = (case toolCalls choice of None \<Rightarrow> [] | Some tcs \<Rightarrow> tcs);
                 ps = map (\<lambda>tc. FunctionCallPart (functionName tc) (toolCallArgs parse tc)) tcs;
                 calls = map (\<lambda>tc. (functionName tc, toolCallArgs parse tc)) tcs
             in Inr \<lparr>candidates = [modelCandidate ps STOP],
                     functionCalls = Some calls,
                     usageMetadata = usageOf (usage response)\<rparr>)
          else
            (let (responseText, thinkingText) = extractReasoningContent choice;
                 ps = (if thinkingText \<noteq> [] then [ThinkingPart thinkingText] else [])
                      @ (if responseText \<noteq> [] then [TextPart responseText] else [])
             in Inr \<lparr>candidates =
                       [modelCandidate (if length ps > 0 then ps else [TextPart responseText])
                          (if finish_reason choice = Some ''stop'' then STOP else OTHER)],
                     functionCalls = None,
                     usageMetadata = usageOf (usage response)\<rparr>))"

section \<open>\<^verbatim>\<open>countTokens\<close>, client built on the OpenAI library\<close>

text \<open>
  This variant asks the backend: it sends the messages with \<^verbatim>\<open>max_tokens: 1\<close> and returns the
  prompt tokens that the answer reports (0 when it reports none).  When the call throws, it
  falls back to an estimate from the characters of the string items and of the text parts.
\<close>

record TokenProbe =
  probeModel :: string
  probeMessages :: "OpenAIMessage list"
  probeMaxTokens :: nat
  probeTemperature :: real

fun fallbackItemChars :: "content_item \<Rightarrow> nat" where
  \<comment> \<open>what one item adds to \<^verbatim>\<open>totalChars\<close> in the \<^verbatim>\<open>catch\<close> block\<close>
  "fallbackItemChars (StringItem s) = jsLength s"
| "fallbackItemChars (ContentItem c) =
     (case (role c, parts c) of
        (Some r, Some ps) \<Rightarrow> sum_list (map jsLength (List.map_filter partText ps))
      | _ \<Rightarrow> 0)"
| "fallbackItemChars (PartItem p) = 0"

definition fallbackCharacters :: "contents_union \<Rightarrow> nat" where
  \<comment> \<open>\<^verbatim>\<open>totalChars\<close> after the loop\<close>
  "fallbackCharacters cs = sum_list (map fallbackItemChars (asArray cs))"

definition countTokensByCall ::
  "ModelConfig \<Rightarrow> (TokenProbe \<Rightarrow> js_error + OpenAIResponse) \<Rightarrow> contents_union \<Rightarrow> nat" where
  \<comment> \<open>\<open>create\<close> is \<^verbatim>\<open>this.client.chat.completions.create\<close>; \<open>Inl\<close> when it throws\<close>
  "countTokensByCall cfg create cs =
     (case create \<lparr>probeModel = model cfg, probeMessages = buildMessages cs,
                    probeMaxTokens = 1, probeTemperature = 0\<rparr> of
        Inr response \<Rightarrow> (case usage response of None \<Rightarrow> 0 | Some u \<Rightarrow> prompt_tokens u)
      | Inl e \<Rightarrow> nat \<lceil>real (fallbackCharacters cs) / 4\<rceil>)"

section \<open>Reading a canonical response, and the messages that reach the wire\<close>

definition responseParts :: "GenerateContentResponse \<Rightarrow> part list list" where
  \<comment> \<open>the part list of each candidate\<close>
  "responseParts r =
     map (\<lambda>c. case parts (candidateContent c) of None \<Rightarrow> [] | Some ps \<Rightarrow> ps) (candidates r)"

definition responseFinish :: "GenerateContentResponse \<Rightarrow> FinishReason list" where
  \<comment> \<open>the finish reason of each candidate\<close>
  "responseFinish r = map finishReason (candidates r)"

definition joinedText :: "content \<Rightarrow> string" where
  \<comment> \<open>the texts of a message's parts, joined with newlines\<close>
  "joinedText c = join (List.map_filter partText (case parts c of None \<Rightarrow> [] | Some ps \<Rightarrow> ps)) [CHR 0x0A]"

definition wireRoleOf :: "content \<Rightarrow> string" where
  \<comment> \<open>the fixed renaming of roles: \<^verbatim>\<open>model\<close> becomes \<^verbatim>\<open>assistant\<close>\<close>
  "wireRoleOf c = (case role c of None \<Rightarrow> [] | Some r \<Rightarrow> if r = ''model'' then ''assistant'' else r)"

definition reachesWire :: "content \<Rightarrow> bool" where
  \<comment> \<open>the messages that are sent: a role, a part list and some text\<close>
  "reachesWire c = (role c \<noteq> None \<and> parts c \<noteq> None \<and> joinedText c \<noteq> [])"

definition lsArguments :: string where
  \<comment> \<open>the JSON text of an object with the one member \<^verbatim>\<open>command\<close>, the string \<^verbatim>\<open>ls\<close>\<close>
  "lsArguments = ''{'' @ [CHR 0x22] @ ''command'' @ [CHR 0x22] @ '':'' @ [CHR 0x22] @ ''ls'' @ [CHR 0x22] @ ''}''"

definition emptyChoice :: OpenAIChoice where
  \<comment> \<open>an example choice: empty content, no tool calls\<close>
  "emptyChoice = \<lparr>messageContent = Some [], reasoningContent = None, toolCalls = None,
                  finish_reason = Some ''stop''\<rparr>"

definition toolChoice :: OpenAIChoice where
  \<comment> \<open>an example choice: two tool calls, the second with arguments that are not JSON\<close>
  "toolChoice = \<lparr>messageContent = None, reasoningContent = None,
     toolCalls = Some [\<lparr>functionName = ''run_shell_command'', functionArguments = lsArguments\<rparr>,
                       \<lparr>functionName = ''read_file'', functionArguments = ''{oops''\<rparr>],
     finish_reason = Some ''tool_calls''\<rparr>"

definition exampleParse :: "string \<Rightarrow> json option" where
  \<comment> \<open>\<^verbatim>\<open>JSON.parse\<close> on the payloads of the examples\<close>
  "exampleParse s =
     (if s = ''{}'' then Some (JObject [])
      else if s = lsArguments then Some (JObject [(''command'', JString ''ls'')])
      else None)"

definition helloFromUser :: contents_union where
  \<comment> \<open>an example input: the user message \<^verbatim>\<open>hello\<close>\<close>
  "helloFromUser = Many [ContentItem \<lparr>role = Some ''user'', parts = Some [TextPart ''hello'']\<rparr>]"

definition helloChoice :: OpenAIChoice where
  \<comment> \<open>an example choice: the content \<^verbatim>\<open>hello\<close>, no tool calls\<close>
  "helloChoice = \<lparr>messageContent = Some ''hello'', reasoningContent = None, toolCalls = None,
                  finish_reason = Some ''stop''\<rparr>"

definition twoPartMessage :: contents_union where
  \<comment> \<open>an example input: one user message of the two text parts \<^verbatim>\<open>a\<close> and \<^verbatim>\<open>b\<close>\<close>
  "twoPartMessage = Many [ContentItem \<lparr>role = Some ''user'', parts = Some [TextPart ''a'', TextPart ''b'']\<rparr>]"

definition joinedMessage :: contents_union where
  \<comment> \<open>an example input: one user message of one text part, \<^verbatim>\<open>a\<close> and \<^verbatim>\<open>b\<close> on two lines\<close>
  "joinedMessage = Many [ContentItem \<lparr>role = Some ''user'', parts = Some [TextPart [CHR ''a'', CHR 0x0A, CHR ''b'']]\<rparr>]"

definition emptyMessage :: contents_union where
  \<comment> \<open>an example input: one user message whose one text part is the empty text\<close>
  "emptyMessage = Many [ContentItem \<lparr>role = Some ''user'', parts = Some [TextPart []]\<rparr>]"

fun itemContent :: "content_item \<Rightarrow> content option" where
  \<comment> \<open>the items of \<^verbatim>\<open>request.contents\<close> that are \<^verbatim>\<open>Content\<close> objects\<close>
  "itemContent (ContentItem c) = Some c"
| "itemContent _ = None"

definition contentItems :: "contents_union \<Rightarrow> content list" where
  \<comment> \<open>the canonical messages of a request, in order\<close>
  "contentItems cs = List.map_filter itemContent (asArray cs)"

section \<open>Notions for stating the properties of the streaming decoder\<close>

text \<open>
  What a list of partial responses carries on each channel: the texts of its text parts and
  of its reasoning parts, in order.
\<close>

definition allParts :: "GenerateContentResponse list \<Rightarrow> part list" where
  "allParts rs = concat (concat (map responseParts rs))"

fun mainTextOf :: "part \<Rightarrow> string option" where
  "mainTextOf (TextPart t) = Some t"
| "mainTextOf _ = None"

fun thinkingTextOf :: "part \<Rightarrow> string option" where
  "thinkingTextOf (ThinkingPart t) = Some t"
| "thinkingTextOf _ = None"

definition mainTexts :: "GenerateContentResponse list \<Rightarrow> string list" where
  "mainTexts rs = List.map_filter mainTextOf (allParts rs)"

definition thinkingTexts :: "GenerateContentResponse list \<Rightarrow> string list" where
  "thinkingTexts rs = List.map_filter thinkingTextOf (allParts rs)"

text \<open>
  The successive executions of the body of \<^verbatim>\<open>if (content)\<close>, for the contents that the
  records of a stream carry: an empty content is skipped.
\<close>

fun feedContents ::
  "bool \<Rightarrow> StreamState \<Rightarrow> string list \<Rightarrow> StreamState \<times> GenerateContentResponse list" where
  "feedContents includeThoughts st [] = (st, [])"
| "feedContents includeThoughts st (c # cs) =
     (if c = [] then feedContents includeThoughts st cs
      else (let (st', out) = processContent includeThoughts st c;
                (st'', out') = feedContents includeThoughts st' cs
            in (st'', out @ out')))"

text \<open>
  What one line of the stream is to the decoder: nothing, the end, or a content.
\<close>

datatype line_kind = Ignored | DoneLine | ContentLine string

definition lineKind :: "(string \<Rightarrow> StreamChunk option) \<Rightarrow> string \<Rightarrow> line_kind" where
  "lineKind parse line =
     (if prefix ''data: '' line then
        (if drop 6 line = ''[DONE]'' then DoneLine
         else (case parse (drop 6 line) of
                 None \<Rightarrow> Ignored
               | Some parsed \<Rightarrow>
                   if chunkContent parsed \<noteq> [] then ContentLine (chunkContent parsed) else Ignored))
      else Ignored)"

fun contentsUntilDone :: "line_kind list \<Rightarrow> string list" where
  \<comment> \<open>the contents of the lines before the first \<^verbatim>\<open>[DONE]\<close>\<close>
  "contentsUntilDone [] = []"
| "contentsUntilDone (DoneLine # ks) = []"
| "contentsUntilDone (ContentLine c # ks) = c # contentsUntilDone ks"
| "contentsUntilDone (Ignored # ks) = contentsUntilDone ks"

definition completeLines :: "string \<Rightarrow> string list" where
  \<comment> \<open>the lines of a text that are ended by a newline\<close>
  "completeLines text = butlast (split text [CHR 0x0A])"

definition streamContents :: "(string \<Rightarrow> StreamChunk option) \<Rightarrow> string \<Rightarrow> string list" where
  \<comment> \<open>the contents that the records of a stream carry, up to \<^verbatim>\<open>[DONE]\<close>\<close>
  "streamContents parse text = contentsUntilDone (map (lineKind parse) (completeLines text))"

text \<open>
  The full answer text with its thinking spans removed, and the interiors of its thinking
  spans, read off the text itself: a span runs from the leftmost opening delimiter to the
  nearest closing delimiter after it.  The text of a span that is never closed belongs to
  neither.
\<close>

function removeThinkingSpans :: "string \<Rightarrow> string" where
  "removeThinkingSpans text =
     (case splitFirst ''<thinking>'' text of
        None \<Rightarrow> text
      | Some (before, rest) \<Rightarrow>
          (case splitFirst ''</thinking>'' rest of
             None \<Rightarrow> before
           | Some (inner, after) \<Rightarrow> before @ removeThinkingSpans after))"
  by pat_completeness auto
termination
proof (relation "measure length")
  show "wf (measure length)"
    by simp
next
  fix s :: string and x2 before rest y2 inner after
  assume a: "splitFirst ''<thinking>'' s = Some x2" "(before, rest) = x2"
    and b: "splitFirst ''</thinking>'' rest = Some y2" "(inner, after) = y2"
  have shorter: "splitFirst pat t = Some (u, r) \<Longrightarrow> pat \<noteq> [] \<Longrightarrow> length r < length t"
    for pat t u r :: string
  proof (induction t arbitrary: u)
    case Nil
    then show ?case by simp
  next
    case (Cons c cs)
    show ?case
    proof (cases "prefix pat (c # cs)")
      case True
      with Cons.prems show ?thesis by auto
    next
      case False
      with Cons.prems obtain u' where "splitFirst pat cs = Some (u', r)"
        by (auto split: if_splits)
      with Cons.IH Cons.prems(2) show ?thesis by fastforce
    qed
  qed
  from a have "length rest < length s"
    by (intro shorter [of "''<thinking>''" s before rest]) auto
  moreover from b have "length after < length rest"
    by (intro shorter [of "''</thinking>''" rest inner after]) auto
  ultimately show "(after, s) \<in> measure length"
    by simp
qed

declare removeThinkingSpans.simps [simp del]

function thinkingSpans :: "string \<Rightarrow> string list" where
  "thinkingSpans text =
     (case splitFirst ''<thinking>'' text of
        None \<Rightarrow> []
      | Some (before, rest) \<Rightarrow>
          (case splitFirst ''</thinking>'' rest of
             None \<Rightarrow> []
           | Some (inner, after) \<Rightarrow> inner # thinkingSpans after))"
  by pat_completeness auto
termination
proof (relation "measure length")
  show "wf (measure length)"
    by simp
next
  fix s :: string and x2 before rest y2 inner after
  assume a: "splitFirst ''<thinking>'' s = Some x2" "(before, rest) = x2"
    and b: "splitFirst ''</thinking>'' rest = Some y2" "(inner, after) = y2"
  have shorter: "splitFirst pat t = Some (u, r) \<Longrightarrow> pat \<noteq> [] \<Longrightarrow> length r < length t"
    for pat t u r :: string
  proof (induction t arbitrary: u)
    case Nil
    then show ?case by simp
  next
    case (Cons c cs)
    show ?case
    proof (cases "prefix pat (c # cs)")
      case True
      with Cons.prems show ?thesis by auto
    next
      case False
      with Cons.prems obtain u' where "splitFirst pat cs = Some (u', r)"
        by (auto split: if_splits)
      with Cons.IH Cons.prems(2) show ?thesis by fastforce
    qed
  qed
  from a have "length rest < length s"
    by (intro shorter [of "''<thinking>''" s before rest]) auto
  moreover from b have "length after < length rest"
    by (intro shorter [of "''</thinking>''" rest inner after]) auto
  ultimately show "(after, s) \<in> measure length"
    by simp
qed

declare thinkingSpans.simps [simp del]

text \<open>
  A stream in which every delimiter arrives whole, one delimiter to a fragment, and opening and
  closing delimiters alternate, is a list of segments: a fragment without delimiter outside of
  any span, or a span, which is the fragment with the opening delimiter, the fragments inside,
  and the fragment with the closing delimiter.  The texts of a segment are to be free of
  tags: no delimiter occurs in them, and none of them ends with the beginning of a delimiter,
  which the next text could complete.
\<close>

datatype segment =
    Outside string
  | SpanSegment string string "string list" string string

fun fragments :: "segment \<Rightarrow> string list" where
  "fragments (Outside s) = [s]"
| "fragments (SpanSegment a b mids c d) = [a @ ''<thinking>'' @ b] @ mids @ [c @ ''</thinking>'' @ d]"

fun noStart :: "string \<Rightarrow> string \<Rightarrow> bool" where
  \<comment> \<open>at no position of the text does the rest of the text begin with the tag or is the rest
      a beginning of the tag\<close>
  "noStart tag [] = True"
| "noStart tag (c # cs) = (\<not> prefix (c # cs) tag \<and> \<not> prefix tag (c # cs) \<and> noStart tag cs)"

definition tagFree :: "string \<Rightarrow> bool" where
  \<comment> \<open>a text in which no delimiter occurs and whose end is not the beginning of a delimiter\<close>
  "tagFree s = (noStart ''<thinking>'' s \<and> noStart ''</thinking>'' s)"

fun cleanSegment :: "segment \<Rightarrow> bool" where
  \<comment> \<open>the delimiters of the segment are the ones that \<open>fragments\<close> writes, and no other
      can arise where two texts meet\<close>
  "cleanSegment (Outside s) = tagFree s"
| "cleanSegment (SpanSegment a b mids c d) =
     (tagFree a \<and> tagFree b \<and> list_all tagFree mids \<and> tagFree c \<and> tagFree d)"

fun segmentMain :: "segment \<Rightarrow> string" where
  \<comment> \<open>the text of a segment outside of its span\<close>
  "segmentMain (Outside s) = s"
| "segmentMain (SpanSegment a b mids c d) = a @ d"

fun segmentInterior :: "segment \<Rightarrow> string option" where
  \<comment> \<open>the text between the delimiters of a span\<close>
  "segmentInterior (Outside s) = None"
| "segmentInterior (SpanSegment a b mids c d) = Some (b @ concat mids @ c)"

fun segmentThinking :: "segment \<Rightarrow> string list" where
  \<comment> \<open>what a span puts on the thinking channel: each fragment inside as it arrives, then
      the whole interior when the span closes; nothing that is empty\<close>
  "segmentThinking (Outside s) = []"
| "segmentThinking (SpanSegment a b mids c d) =
     filter (\<lambda>m. m \<noteq> []) mids @ filter (\<lambda>m. m \<noteq> []) [b @ concat mids @ c]"

fun segmentEmissions :: "segment \<Rightarrow> GenerateContentResponse list" where
  \<comment> \<open>the partial responses of a segment, in order; nothing for an empty text\<close>
  "segmentEmissions (Outside s) = (if s = [] then [] else [createStreamResponse s Main])"
| "segmentEmissions (SpanSegment a b mids c d) =
     (if a = [] then [] else [createStreamResponse a Main])
     @ map (\<lambda>m. createStreamResponse m Thinking) (filter (\<lambda>m. m \<noteq> []) mids)
     @ (if b @ concat mids @ c = [] then [] else [createStreamResponse (b @ concat mids @ c) Thinking])
     @ (if d = [] then [] else [createStreamResponse d Main])"

section \<open>Example streams\<close>

definition recordPrefix :: string where
  \<comment> \<open>the JSON text before the content of a streamed record: \<^verbatim>\<open>{"choices":[{"delta":{"content":"\<close>\<close>
  "recordPrefix = ''{'' @ [CHR 0x22] @ ''choices'' @ [CHR 0x22] @ '':[{'' @ [CHR 0x22] @ ''delta''
     @ [CHR 0x22] @ '':{'' @ [CHR 0x22] @ ''content'' @ [CHR 0x22] @ '':'' @ [CHR 0x22]"

definition recordSuffix :: string where
  \<comment> \<open>the JSON text after the content: a double quote and \<^verbatim>\<open>}}]}\<close>\<close>
  "recordSuffix = [CHR 0x22] @ ''}}]}''"

definition exampleChunkParse :: "string \<Rightarrow> StreamChunk option" where
  \<comment> \<open>\<^verbatim>\<open>JSON.parse\<close> on the payloads of the examples: a record of the form above, whose content
      has no character that JSON escapes, or a text that is not JSON\<close>
  "exampleChunkParse s =
     (if prefix recordPrefix s \<and> suffix recordSuffix s \<and> length recordPrefix + length recordSuffix \<le> length s
      then Some (StreamChunk (Some [StreamChoice (Some (StreamDelta
             (Some (take (length s - length recordPrefix - length recordSuffix)
                      (drop (length recordPrefix) s)))))]))
      else None)"

definition sseRecord :: "string \<Rightarrow> string" where
  \<comment> \<open>one event of the stream that carries a content: \<^verbatim>\<open>data: <json>\<close> and an empty line\<close>
  "sseRecord c = ''data: '' @ recordPrefix @ c @ recordSuffix @ [CHR 0x0A, CHR 0x0A]"

definition sseDone :: string where
  "sseDone = ''data: [DONE]'' @ [CHR 0x0A, CHR 0x0A]"

definition streamResponse :: "string list \<Rightarrow> stream_end \<Rightarrow> StreamBody option HttpResponse" where
  \<comment> \<open>a successful response whose reader delivers the given reads\<close>
  "streamResponse rs e = \<lparr>ok = True, status = 200, statusText = ''OK'', body = Some \<lparr>reads = rs, ending = e\<rparr>\<rparr>"

definition splitDelimiterStream :: "string list" where
  \<comment> \<open>the scenario of the specification: three records, the opening delimiter split over the
      first two; delivered in two reads that cut the second record\<close>
  "splitDelimiterStream =
     [sseRecord ''Let me <thi'' @ take 20 (sseRecord ''nking>rea''),
      drop 20 (sseRecord ''nking>rea'') @ sseRecord ''son</thinking> done'' @ sseDone]"

definition wholeDelimiterSegments :: "segment list" where
  \<comment> \<open>an answer with whole delimiters: a fragment outside, then a span of three fragments\<close>
  "wholeDelimiterSegments = [Outside ''Let me '', SpanSegment ''see: 1<2 '' ''rea'' [''s''] ''on'' '' done'']"

definition unterminatedStream :: "string list" where
  \<comment> \<open>a span that is opened and never closed: the record with the opening delimiter, one more
      record, and the end of the stream\<close>
  "unterminatedStream = [sseRecord ''<thinking>a'' @ sseRecord ''b'' @ sseDone]"

definition malformedStream :: "string list" where
  \<comment> \<open>a record that is not JSON between two records that are\<close>
  "malformedStream = [sseRecord ''one'' @ ''data: {oops'' @ [CHR 0x0A, CHR 0x0A] @ sseRecord ''two'']"

definition wellFormedStream :: "string list" where
  \<comment> \<open>the stream above without the record that is not JSON\<close>
  "wellFormedStream = [sseRecord ''one'' @ [CHR 0x0A] @ sseRecord ''two'']"

section \<open>Facts about the string primitives\<close>

lemma splitFirst_shorter:
  "splitFirst pat s = Some (a, r) \<Longrightarrow> pat \<noteq> [] \<Longrightarrow> length r < length s"
proof (induction s arbitrary: a)
  case Nil
  then show ?case by simp
next
  case (Cons c cs)
  show ?case
  proof (cases "prefix pat (c # cs)")
    case True
    with Cons.prems show ?thesis by auto
  next
    case False
    with Cons.prems obtain a' where "splitFirst pat cs = Some (a', r)"
      by (auto split: if_splits)
    with Cons.IH Cons.prems(2) show ?thesis by fastforce
  qed
qed

section \<open>Facts about the token estimate\<close>

lemma jsLength_append: "jsLength (a @ b) = jsLength a + jsLength b"
  by (simp add: jsLength_def)

lemma jsLength_join:
  "jsLength (join xs sep) = sum_list (map jsLength xs) + (length xs - 1) * jsLength sep"
  by (induction xs sep rule: join.induct) (auto simp: jsLength_append jsLength_def)

lemma jsLength_ascii: "\<forall>c\<in>set s. (of_char c :: nat) < 0x80 \<Longrightarrow> jsLength s = length s"
  by (induction s) (simp_all add: jsLength_def utf16Units_def)

lemma quarter_ceiling: "nat \<lceil>real n * 0.25\<rceil> = (n + 3) div 4"
proof -
  have "\<lceil>real n * 0.25\<rceil> = \<lceil>real_of_int (int n) / real_of_int 4\<rceil>"
    by simp
  also have "\<dots> = - ((- int n) div 4)"
    unfolding ceiling_divide_eq_div by simp
  finally show ?thesis by linarith
qed

lemma countTokens_div: "countTokens cs = (jsLength (countText cs) + 3) div 4"
  by (simp only: countTokens_def quarter_ceiling)

lemma jsLength_countText:
  "jsLength (countText cs) = totalCharacters cs + (length (requestTexts cs) - 1)"
proof -
  have "jsLength '' '' = 1"
    by (simp add: jsLength_def utf16Units_def)
  then show ?thesis
    by (simp add: countText_def totalCharacters_def jsLength_join)
qed

lemma fiveShortParts_texts: "requestTexts fiveShortParts = [''a'', ''a'', ''a'', ''a'', ''a'']"
  by (simp add: requestTexts_def fiveShortParts_def)

lemma oneLongPart_texts: "requestTexts oneLongPart = [''aaaaaa'']"
  by (simp add: requestTexts_def oneLongPart_def)

lemma oneShortPart_texts: "requestTexts oneShortPart = [''ab'']"
  by (simp add: requestTexts_def oneShortPart_def)

lemma twoHanCharacters_texts:
  "requestTexts twoHanCharacters = [[CHR 0xE6, CHR 0x80, CHR 0x9D, CHR 0xE8, CHR 0x80, CHR 0x83]]"
  by (simp add: requestTexts_def twoHanCharacters_def)

lemma countTokensByCall_fails:
  "countTokensByCall cfg (\<lambda>p. Inl e) cs = (fallbackCharacters cs + 3) div 4"
proof -
  have "nat \<lceil>real n / 4\<rceil> = (n + 3) div 4" for n :: nat
    using quarter_ceiling [of n] by simp
  then show ?thesis
    by (simp add: countTokensByCall_def)
qed

text \<open>
  Claim C7, as the code has it.  Characters are counted as \<^verbatim>\<open>length\<close> counts them, in UTF-16
  code units.  In the fetch-based client \<^verbatim>\<open>countTokens\<close> returns \<open>ceil(L * 0.25)\<close> where \<open>L\<close> is
  the length of the text parts joined with single spaces: the characters of the text parts
  plus one separator between any two of them.  The estimate is monotone in \<open>L\<close>, and monotone
  in the number of characters of the text parts for inputs with the same number of text
  parts.  In the client built on the OpenAI library, when the call to the backend throws,
  \<^verbatim>\<open>countTokens\<close> returns \<open>ceil(T / 4)\<close> where \<open>T\<close> is the number of characters of the string
  items and of the text parts, and that estimate is monotone in \<open>T\<close>; when the call answers
  without a usage figure, it returns 0.
\<close>

theorem countTokens_joined_length:
  "countTokens cs = nat \<lceil>real (totalCharacters cs + (length (requestTexts cs) - 1)) * 0.25\<rceil>
   \<and> jsLength (countText cs) = totalCharacters cs + (length (requestTexts cs) - 1)
   \<and> (jsLength (countText cs) \<le> jsLength (countText cs') \<longrightarrow> countTokens cs \<le> countTokens cs')
   \<and> (length (requestTexts cs) = length (requestTexts cs') \<and> totalCharacters cs \<le> totalCharacters cs'
        \<longrightarrow> countTokens cs \<le> countTokens cs')
   \<and> countTokensByCall cfg (\<lambda>p. Inl e) cs = nat \<lceil>real (fallbackCharacters cs) / 4\<rceil>
   \<and> (fallbackCharacters cs \<le> fallbackCharacters cs'
        \<longrightarrow> countTokensByCall cfg (\<lambda>p. Inl e) cs \<le> countTokensByCall cfg (\<lambda>p. Inl e) cs')
   \<and> countTokensByCall cfg (\<lambda>p. Inr \<lparr>choices = chs, usage = None\<rparr>) cs = 0"
proof -
  have mono: "countTokens cs \<le> countTokens cs'" if "jsLength (countText cs) \<le> jsLength (countText cs')"
    using that unfolding countTokens_div by (intro div_le_mono) simp
  have same: "jsLength (countText cs) \<le> jsLength (countText cs')"
    if "length (requestTexts cs) = length (requestTexts cs')" "totalCharacters cs \<le> totalCharacters cs'"
    using that by (simp add: jsLength_countText)
  have c1: "countTokens cs = nat \<lceil>real (totalCharacters cs + (length (requestTexts cs) - 1)) * 0.25\<rceil>"
    by (simp only: countTokens_def jsLength_countText)
  have f1: "countTokensByCall cfg (\<lambda>p. Inl e) cs = nat \<lceil>real (fallbackCharacters cs) / 4\<rceil>"
    by (simp add: countTokensByCall_def)
  have f2: "countTokensByCall cfg (\<lambda>p. Inl e) cs \<le> countTokensByCall cfg (\<lambda>p. Inl e) cs'"
    if "fallbackCharacters cs \<le> fallbackCharacters cs'"
    using that unfolding countTokensByCall_fails by (intro div_le_mono) simp
  have f3: "countTokensByCall cfg (\<lambda>p. Inr \<lparr>choices = chs, usage = None\<rparr>) cs = 0"
    by (simp add: countTokensByCall_def)
  from c1 jsLength_countText mono same f1 f2 f3 show ?thesis
    by blast
qed

theorem countTokens_joined_length_witness:
  "jsLength (countText oneLongPart) \<le> jsLength (countText fiveShortParts)
   \<and> countTokens oneLongPart \<le> countTokens fiveShortParts
   \<and> length (requestTexts oneShortPart) = length (requestTexts oneLongPart)
   \<and> totalCharacters oneShortPart \<le> totalCharacters oneLongPart
   \<and> countTokens oneShortPart \<le> countTokens oneLongPart
   \<and> totalCharacters twoHanCharacters = 2
   \<and> totalCharacters twoHanCharacters \<le> totalCharacters oneShortPart
   \<and> countTokens twoHanCharacters \<le> countTokens oneShortPart
   \<and> fallbackCharacters fiveShortParts \<le> fallbackCharacters oneLongPart
   \<and> countTokensByCall anthropicConfig (\<lambda>p. Inl (Error ''offline'')) fiveShortParts
       \<le> countTokensByCall anthropicConfig (\<lambda>p. Inl (Error ''offline'')) oneLongPart"
proof -
  have a: "fallbackCharacters fiveShortParts = 5" and b: "fallbackCharacters oneLongPart = 6"
    by (simp_all add: fallbackCharacters_def fiveShortParts_def oneLongPart_def jsLength_def
        utf16Units_def)
  have c: "totalCharacters oneLongPart = 6" "totalCharacters oneShortPart = 2"
    "totalCharacters fiveShortParts = 5" "totalCharacters twoHanCharacters = 2"
    by (simp_all add: totalCharacters_def fiveShortParts_texts oneLongPart_texts
        oneShortPart_texts twoHanCharacters_texts jsLength_def utf16Units_def)
  have d: "length (requestTexts oneLongPart) = 1" "length (requestTexts oneShortPart) = 1"
    "length (requestTexts fiveShortParts) = 5" "length (requestTexts twoHanCharacters) = 1"
    by (simp_all add: fiveShortParts_texts oneLongPart_texts oneShortPart_texts
        twoHanCharacters_texts)
  from countTokens_joined_length [of oneLongPart fiveShortParts]
    countTokens_joined_length [of oneShortPart oneLongPart]
    countTokens_joined_length [of twoHanCharacters oneShortPart]
    countTokens_joined_length [of fiveShortParts oneLongPart anthropicConfig "Error ''offline''"]
    a b c d
  show ?thesis
    by simp
qed

text \<open>
  Claim C7 as stated fails: five text parts of one character each total 5 characters and are
  estimated at 3 tokens, which is not \<open>ceil(5 * 0.25) = 2\<close>; one text part of 6 characters is
  estimated at 2 tokens.  More characters, smaller estimate.  And the variant that asks the
  backend returns 0, not an estimate, when the answer carries no usage figure.
\<close>

theorem countTokens_characters_counterexample:
  "totalCharacters fiveShortParts = 5 \<and> totalCharacters oneLongPart = 6
   \<and> countTokens fiveShortParts = 3 \<and> countTokens oneLongPart = 2
   \<and> countTokens fiveShortParts \<noteq> nat \<lceil>real (totalCharacters fiveShortParts) * 0.25\<rceil>
   \<and> countTokensByCall anthropicConfig (\<lambda>p. Inr \<lparr>choices = [], usage = None\<rparr>) oneLongPart = 0"
  by (simp add: countTokens_div quarter_ceiling countText_def totalCharacters_def
      fiveShortParts_texts oneLongPart_texts countTokensByCall_def jsLength_def utf16Units_def)

section \<open>Facts about the request body\<close>

lemma buildRequestBody_zero_temperature:
  "buildRequestBody cfg (request\<lparr>config := Some (c\<lparr>temperature := Some 0\<rparr>)\<rparr>) stream
   = buildRequestBody cfg (request\<lparr>config := Some (c\<lparr>temperature := None\<rparr>)\<rparr>) stream"
  by (simp add: buildRequestBody_def numberOr_def includeThoughtsOf_def)

lemma buildRequestBody_zero_maxOutputTokens:
  "buildRequestBody cfg (request\<lparr>config := Some (c\<lparr>maxOutputTokens := Some 0\<rparr>)\<rparr>) stream
   = buildRequestBody cfg (request\<lparr>config := Some (c\<lparr>maxOutputTokens := None\<rparr>)\<rparr>) stream"
  by (simp add: buildRequestBody_def numberOr_def includeThoughtsOf_def)

text \<open>
  Claim C10.  A request whose config sets \<^verbatim>\<open>temperature\<close> to 0 is sent with temperature 0.7,
  and one whose config sets \<^verbatim>\<open>maxOutputTokens\<close> to 0 is sent with \<^verbatim>\<open>max_tokens\<close> 2048, in the
  streaming call as in the other one.  Whatever the network answers, both calls send and
  return the same for an explicit zero as for a missing value.  The last two conjuncts say
  that the body in question is the one request each call sends.
\<close>

theorem explicit_zero_becomes_default:
  "body_temperature (buildRequestBody cfg (request\<lparr>config := Some (c\<lparr>temperature := Some 0\<rparr>)\<rparr>) stream) = 0.7
   \<and> body_max_tokens (buildRequestBody cfg (request\<lparr>config := Some (c\<lparr>maxOutputTokens := Some 0\<rparr>)\<rparr>) stream) = 2048
   \<and> generateContent cfg fetch (request\<lparr>config := Some (c\<lparr>temperature := Some 0\<rparr>)\<rparr>)
       = generateContent cfg fetch (request\<lparr>config := Some (c\<lparr>temperature := None\<rparr>)\<rparr>)
   \<and> generateContent cfg fetch (request\<lparr>config := Some (c\<lparr>maxOutputTokens := Some 0\<rparr>)\<rparr>)
       = generateContent cfg fetch (request\<lparr>config := Some (c\<lparr>maxOutputTokens := None\<rparr>)\<rparr>)
   \<and> generateContentStream cfg parse sfetch (request\<lparr>config := Some (c\<lparr>temperature := Some 0\<rparr>)\<rparr>)
       = generateContentStream cfg parse sfetch (request\<lparr>config := Some (c\<lparr>temperature := None\<rparr>)\<rparr>)
   \<and> generateContentStream cfg parse sfetch (request\<lparr>config := Some (c\<lparr>maxOutputTokens := Some 0\<rparr>)\<rparr>)
       = generateContentStream cfg parse sfetch (request\<lparr>config := Some (c\<lparr>maxOutputTokens := None\<rparr>)\<rparr>)
   \<and> fst (generateContent cfg fetch request) = [chatRequest cfg (buildRequestBody cfg request False)]
   \<and> fst (generateContentStream cfg parse sfetch request) = [chatRequest cfg (buildRequestBody cfg request True)]"
proof -
  have t: "body_temperature (buildRequestBody cfg (request\<lparr>config := Some (c\<lparr>temperature := Some 0\<rparr>)\<rparr>) stream) = 0.7"
    by (simp add: buildRequestBody_def numberOr_def)
  have m: "body_max_tokens (buildRequestBody cfg (request\<lparr>config := Some (c\<lparr>maxOutputTokens := Some 0\<rparr>)\<rparr>) stream) = 2048"
    by (simp add: buildRequestBody_def numberOr_def)
  have i1: "includeThoughtsOf (request\<lparr>config := Some (c\<lparr>temperature := Some 0\<rparr>)\<rparr>)
            = includeThoughtsOf (request\<lparr>config := Some (c\<lparr>temperature := None\<rparr>)\<rparr>)"
    by (simp add: includeThoughtsOf_def)
  have i2: "includeThoughtsOf (request\<lparr>config := Some (c\<lparr>maxOutputTokens := Some 0\<rparr>)\<rparr>)
            = includeThoughtsOf (request\<lparr>config := Some (c\<lparr>maxOutputTokens := None\<rparr>)\<rparr>)"
    by (simp add: includeThoughtsOf_def)
  have g1: "generateContent cfg fetch (request\<lparr>config := Some (c\<lparr>temperature := Some 0\<rparr>)\<rparr>)
       = generateContent cfg fetch (request\<lparr>config := Some (c\<lparr>temperature := None\<rparr>)\<rparr>)"
    unfolding generateContent_def buildRequestBody_zero_temperature i1 ..
  have g2: "generateContent cfg fetch (request\<lparr>config := Some (c\<lparr>maxOutputTokens := Some 0\<rparr>)\<rparr>)
       = generateContent cfg fetch (request\<lparr>config := Some (c\<lparr>maxOutputTokens := None\<rparr>)\<rparr>)"
    unfolding generateContent_def buildRequestBody_zero_maxOutputTokens i2 ..
  have s1: "generateContentStream cfg parse sfetch (request\<lparr>config := Some (c\<lparr>temperature := Some 0\<rparr>)\<rparr>)
       = generateContentStream cfg parse sfetch (request\<lparr>config := Some (c\<lparr>temperature := None\<rparr>)\<rparr>)"
    unfolding generateContentStream_def buildRequestBody_zero_temperature i1 ..
  have s2: "generateContentStream cfg parse sfetch (request\<lparr>config := Some (c\<lparr>maxOutputTokens := Some 0\<rparr>)\<rparr>)
       = generateContentStream cfg parse sfetch (request\<lparr>config := Some (c\<lparr>maxOutputTokens := None\<rparr>)\<rparr>)"
    unfolding generateContentStream_def buildRequestBody_zero_maxOutputTokens i2 ..
  have f1: "fst (generateContent cfg fetch request) = [chatRequest cfg (buildRequestBody cfg request False)]"
    by (simp add: generateContent_def Let_def)
  have f2: "fst (generateContentStream cfg parse sfetch request) = [chatRequest cfg (buildRequestBody cfg request True)]"
    by (simp add: generateContentStream_def Let_def)
  from t m g1 g2 s1 s2 f1 f2 show ?thesis by blast
qed

section \<open>Facts about \<^verbatim>\<open>embedContent\<close>\<close>

lemma config_error_not_http: "Error (''Embedding model not configured for provider: '' @ p) \<noteq> httpError r"
  by (simp add: httpError_def)

text \<open>
  Claim C9.  When the configuration has no embedding model (the field is missing or is the
  empty string), \<^verbatim>\<open>embedContent\<close> sends no HTTP request and fails with the error "Embedding
  model not configured for provider: " followed by the provider's name; that error is not the
  error of any HTTP status.
\<close>

theorem embedContent_not_configured:
  assumes "embeddingModel cfg = None \<or> embeddingModel cfg = Some []"
  shows "embedContent cfg fetch cs
         = ([], Inl (Error (''Embedding model not configured for provider: '' @ providerName (provider cfg))))
         \<and> (\<forall>r :: real list list HttpResponse. snd (embedContent cfg fetch cs) \<noteq> Inl (httpError r))"
proof -
  have eq: "embedContent cfg fetch cs
      = ([], Inl (Error (''Embedding model not configured for provider: '' @ providerName (provider cfg))))"
    using assms by (auto simp: embedContent_def)
  have "snd (embedContent cfg fetch cs) \<noteq> Inl (httpError r)" for r :: "real list list HttpResponse"
    unfolding eq snd_conv using config_error_not_http [of "providerName (provider cfg)" r] by blast
  with eq show ?thesis by blast
qed

theorem embedContent_not_configured_witness:
  "(embeddingModel anthropicConfig = None \<or> embeddingModel anthropicConfig = Some [])
   \<and> embedContent anthropicConfig (\<lambda>r. Inl (Error ''unreachable'')) (Single (StringItem ''hello''))
      = ([], Inl (Error ''Embedding model not configured for provider: anthropic''))"
  using embedContent_not_configured [of anthropicConfig "\<lambda>r. Inl (Error ''unreachable'')" "Single (StringItem ''hello'')"]
  by (simp add: anthropicConfig_def)

section \<open>Facts about the translation of a complete response\<close>

lemma firstChoice_single: "firstChoice \<lparr>choices = [c], usage = u\<rparr> = Some c"
  by (simp add: firstChoice_def elemAt_def)

lemma responseParts_fromResponse_empty:
  assumes "firstChoice data = Some c" "messageContent c = None \<or> messageContent c = Some []"
  shows "responseParts (fromResponse includeThoughts data) = [[TextPart []]]"
  using assms by (auto simp: fromResponse_def responseParts_def modelCandidate_def)

lemma extractReasoningContent_empty:
  assumes "messageContent c = None \<or> messageContent c = Some []"
    and "reasoningContent c = None \<or> reasoningContent c = Some []"
  shows "extractReasoningContent c = ([], [])"
  using assms by (auto simp: extractReasoningContent_def)

lemma fromCompletion_empty:
  assumes "firstChoice data = Some c" "messageContent c = None \<or> messageContent c = Some []"
    and "reasoningContent c = None \<or> reasoningContent c = Some []"
    and "toolCalls c = None \<or> toolCalls c = Some []"
  shows "map_sum id responseParts (fromCompletion parse data) = Inr [[TextPart []]]"
proof -
  have e: "extractReasoningContent c = ([], [])"
    using assms(2,3) by (rule extractReasoningContent_empty)
  from assms(1,4) show ?thesis
    by (auto simp: fromCompletion_def e responseParts_def modelCandidate_def)
qed

lemma fromCompletion_tool_calls:
  assumes "firstChoice data = Some c" "toolCalls c = Some tcs" "tcs \<noteq> []"
  shows "fromCompletion parse data =
           Inr \<lparr>candidates = [modelCandidate (map (\<lambda>tc. FunctionCallPart (functionName tc) (toolCallArgs parse tc)) tcs) STOP],
                functionCalls = Some (map (\<lambda>tc. (functionName tc, toolCallArgs parse tc)) tcs),
                usageMetadata = usageOf (usage data)\<rparr>"
  using assms by (simp add: fromCompletion_def)

lemma fromCompletion_no_tool_calls:
  assumes "firstChoice data = Some c" "toolCalls c = None \<or> toolCalls c = Some []"
  shows "map_sum id responseFinish (fromCompletion parse data)
         = Inr [if finish_reason c = Some ''stop'' then STOP else OTHER]"
  using assms
  by (auto simp: fromCompletion_def responseFinish_def modelCandidate_def split: prod.splits)

text \<open>
  Claim C3, as the code has it.  For a wire response whose first choice has no content or the
  empty string as content, the canonical response of the fetch-based client has one candidate
  whose part list is the single text part with the empty text: a placeholder, made by
  \<^verbatim>\<open>parts.length > 0 ? parts : [{ text: responseText }]\<close>.  The client built on the OpenAI
  library returns the same, without an error, when the choice has no tool calls and no
  reasoning text either.
\<close>

theorem empty_content_gives_placeholder_part:
  assumes "firstChoice data = Some c"
    and "messageContent c = None \<or> messageContent c = Some []"
  shows "responseParts (fromResponse includeThoughts data) = [[TextPart []]]
         \<and> ((reasoningContent c = None \<or> reasoningContent c = Some [])
              \<and> (toolCalls c = None \<or> toolCalls c = Some [])
             \<longrightarrow> map_sum id responseParts (fromCompletion parse data) = Inr [[TextPart []]])"
  using responseParts_fromResponse_empty [OF assms] fromCompletion_empty [OF assms]
  by blast

theorem empty_content_gives_placeholder_part_witness:
  "firstChoice \<lparr>choices = [emptyChoice], usage = None\<rparr> = Some emptyChoice
   \<and> (messageContent emptyChoice = None \<or> messageContent emptyChoice = Some [])
   \<and> (reasoningContent emptyChoice = None \<or> reasoningContent emptyChoice = Some [])
   \<and> (toolCalls emptyChoice = None \<or> toolCalls emptyChoice = Some [])
   \<and> responseParts (fromResponse False \<lparr>choices = [emptyChoice], usage = None\<rparr>) = [[TextPart []]]
   \<and> map_sum id responseParts (fromCompletion exampleParse \<lparr>choices = [emptyChoice], usage = None\<rparr>)
       = Inr [[TextPart []]]"
  using empty_content_gives_placeholder_part
    [of "\<lparr>choices = [emptyChoice], usage = None\<rparr>" emptyChoice False exampleParse]
  by (simp add: firstChoice_single emptyChoice_def)

text \<open>
  Claim C3 as stated fails: for the response whose one choice has the empty string as content
  and no tool calls, the part list is not empty, in either variant of the client.
\<close>

theorem empty_content_parts_counterexample:
  "responseParts (fromResponse False \<lparr>choices = [emptyChoice], usage = None\<rparr>) = [[TextPart []]]
   \<and> responseParts (fromResponse False \<lparr>choices = [emptyChoice], usage = None\<rparr>) \<noteq> [[]]
   \<and> map_sum id responseParts (fromCompletion exampleParse \<lparr>choices = [emptyChoice], usage = None\<rparr>)
       \<noteq> Inr [[]]"
  by (simp add: fromResponse_def fromCompletion_def responseParts_def modelCandidate_def
      firstChoice_single emptyChoice_def extractReasoningContent_def)

text \<open>
  Claim C4, as the code has it.  In the client built on the OpenAI library, which reads tool
  calls, a response with a first choice is translated without error, and its candidate's
  finish reason is \<open>STOP\<close> when the choice carries at least one tool call, whatever the wire
  value; otherwise it is \<open>STOP\<close> when the wire \<^verbatim>\<open>finish_reason\<close> is \<^verbatim>\<open>"stop"\<close> and \<open>OTHER\<close> for
  any other value.  The fetch-based client does not read tool calls: its finish reason is
  \<open>STOP\<close> exactly when the wire value is \<^verbatim>\<open>"stop"\<close>, also for a choice that carries tool calls.
\<close>

theorem finish_reason_mapping:
  assumes "firstChoice data = Some c"
  shows "map_sum id responseFinish (fromCompletion parse data)
           = Inr [if (\<exists>tc tcs. toolCalls c = Some (tc # tcs)) then STOP
                  else if finish_reason c = Some ''stop'' then STOP else OTHER]
         \<and> responseFinish (fromResponse includeThoughts data)
           = [if finish_reason c = Some ''stop'' then STOP else OTHER]"
proof -
  have sdk: "map_sum id responseFinish (fromCompletion parse data)
           = Inr [if (\<exists>tc tcs. toolCalls c = Some (tc # tcs)) then STOP
                  else if finish_reason c = Some ''stop'' then STOP else OTHER]"
  proof (cases "\<exists>tc tcs. toolCalls c = Some (tc # tcs)")
    case True
    then obtain tc tcs where t: "toolCalls c = Some (tc # tcs)" by blast
    show ?thesis
      using fromCompletion_tool_calls [OF assms t, of parse] True
      by (simp add: responseFinish_def modelCandidate_def)
  next
    case False
    then have "toolCalls c = None \<or> toolCalls c = Some []"
      by (metis list.exhaust option.exhaust)
    from fromCompletion_no_tool_calls [OF assms this, of parse] False show ?thesis
      by simp
  qed
  have "responseFinish (fromResponse includeThoughts data)
           = [if finish_reason c = Some ''stop'' then STOP else OTHER]"
    using assms
    by (simp add: fromResponse_def responseFinish_def modelCandidate_def Let_def split: prod.splits)
  with sdk show ?thesis by blast
qed

theorem finish_reason_mapping_witness:
  "firstChoice \<lparr>choices = [toolChoice], usage = None\<rparr> = Some toolChoice
   \<and> finish_reason toolChoice = Some ''tool_calls''
   \<and> map_sum id responseFinish (fromCompletion exampleParse \<lparr>choices = [toolChoice], usage = None\<rparr>) = Inr [STOP]
   \<and> firstChoice \<lparr>choices = [emptyChoice], usage = None\<rparr> = Some emptyChoice
   \<and> map_sum id responseFinish (fromCompletion exampleParse \<lparr>choices = [emptyChoice], usage = None\<rparr>) = Inr [STOP]
   \<and> map_sum id responseFinish
        (fromCompletion exampleParse \<lparr>choices = [emptyChoice\<lparr>finish_reason := Some ''length''\<rparr>], usage = None\<rparr>)
      = Inr [OTHER]"
  using finish_reason_mapping [of "\<lparr>choices = [toolChoice], usage = None\<rparr>" toolChoice exampleParse]
    finish_reason_mapping [of "\<lparr>choices = [emptyChoice], usage = None\<rparr>" emptyChoice exampleParse]
    finish_reason_mapping [of "\<lparr>choices = [emptyChoice\<lparr>finish_reason := Some ''length''\<rparr>], usage = None\<rparr>"
       "emptyChoice\<lparr>finish_reason := Some ''length''\<rparr>" exampleParse]
  by (simp add: firstChoice_single toolChoice_def emptyChoice_def)

text \<open>
  Claim C4 as stated fails in each variant of the client, on a choice that carries two tool
  calls and the wire value \<^verbatim>\<open>"tool_calls"\<close>.  The fetch-based client gives \<open>OTHER\<close>, although the
  choice contains a tool call.  The client built on the OpenAI library gives \<open>STOP\<close>, although
  the wire value is not \<^verbatim>\<open>"stop"\<close>.
\<close>

theorem finish_reason_tool_calls_counterexample:
  "toolCalls toolChoice \<noteq> None \<and> toolCalls toolChoice \<noteq> Some []
   \<and> finish_reason toolChoice = Some ''tool_calls''
   \<and> finish_reason toolChoice \<noteq> Some ''stop''
   \<and> responseFinish (fromResponse False \<lparr>choices = [toolChoice], usage = None\<rparr>) = [OTHER]
   \<and> responseFinish (fromResponse True \<lparr>choices = [toolChoice], usage = None\<rparr>) = [OTHER]
   \<and> map_sum id responseFinish (fromCompletion exampleParse \<lparr>choices = [toolChoice], usage = None\<rparr>)
       = Inr [STOP]"
  by (simp add: fromResponse_def fromCompletion_def responseFinish_def modelCandidate_def
      firstChoice_single toolChoice_def)

text \<open>
  Claim C5.  When the first choice carries one or more tool calls, the translation returns a
  response, not an error, whose part list has exactly one \<open>FunctionCallPart\<close> per tool call, in
  order, with the call's name and with its argument string parsed as JSON; where the argument
  string does not parse, the part carries the empty object.  The two assumptions on \<open>parse\<close>
  are facts of \<^verbatim>\<open>JSON.parse\<close>: the empty string is not JSON (the code parses \<^verbatim>\<open>'{}'\<close> in its
  place), and \<^verbatim>\<open>'{}'\<close> is the empty object.
\<close>

theorem tool_calls_become_function_call_parts:
  assumes "firstChoice data = Some c" "toolCalls c = Some tcs" "tcs \<noteq> []"
    and "parse [] = None" "parse ''{}'' = Some (JObject [])"
  shows "map_sum id responseParts (fromCompletion parse data) =
           Inr [map (\<lambda>tc. FunctionCallPart (functionName tc)
                       (case parse (functionArguments tc) of Some v \<Rightarrow> v | None \<Rightarrow> JObject [])) tcs]"
proof -
  have "toolCallArgs parse tc = (case parse (functionArguments tc) of Some v \<Rightarrow> v | None \<Rightarrow> JObject [])" for tc
    using assms(4,5) by (simp add: toolCallArgs_def safeParseJSON_def)
  then show ?thesis
    using fromCompletion_tool_calls [OF assms(1-3), of parse]
    by (simp add: responseParts_def modelCandidate_def)
qed

theorem tool_calls_become_function_call_parts_witness:
  "firstChoice \<lparr>choices = [toolChoice], usage = None\<rparr> = Some toolChoice
   \<and> toolCalls toolChoice = Some [\<lparr>functionName = ''run_shell_command'', functionArguments = lsArguments\<rparr>,
                       \<lparr>functionName = ''read_file'', functionArguments = ''{oops''\<rparr>]
   \<and> exampleParse [] = None \<and> exampleParse ''{}'' = Some (JObject [])
   \<and> map_sum id responseParts (fromCompletion exampleParse \<lparr>choices = [toolChoice], usage = None\<rparr>)
       = Inr [[FunctionCallPart ''run_shell_command'' (JObject [(''command'', JString ''ls'')]),
               FunctionCallPart ''read_file'' (JObject [])]]"
proof -
  have a: "firstChoice \<lparr>choices = [toolChoice], usage = None\<rparr> = Some toolChoice"
    by (rule firstChoice_single)
  have b: "toolCalls toolChoice = Some [\<lparr>functionName = ''run_shell_command'', functionArguments = lsArguments\<rparr>,
                       \<lparr>functionName = ''read_file'', functionArguments = ''{oops''\<rparr>]"
    by (simp add: toolChoice_def)
  have c: "[\<lparr>functionName = ''run_shell_command'', functionArguments = lsArguments\<rparr>,
                       \<lparr>functionName = ''read_file'', functionArguments = ''{oops''\<rparr>] \<noteq> []"
    by simp
  have d: "exampleParse [] = None" and e: "exampleParse ''{}'' = Some (JObject [])"
    by (simp_all add: exampleParse_def lsArguments_def)
  have f: "exampleParse lsArguments = Some (JObject [(''command'', JString ''ls'')])"
      and g: "exampleParse ''{oops'' = None"
    by (simp_all add: exampleParse_def lsArguments_def)
  from tool_calls_become_function_call_parts [OF a b c d e] a b d e f g show ?thesis
    by simp
qed

section \<open>Facts about the way to the wire and back\<close>

lemma contentToMessages_ContentItem:
  "contentToMessages (ContentItem c) =
     (if reachesWire c then [\<lparr>wireRole = wireRoleOf c, wireContent = joinedText c\<rparr>] else [])"
  by (cases "role c"; cases "parts c")
     (simp_all add: reachesWire_def wireRoleOf_def joinedText_def Let_def)

lemma contentToMessages_items:
  "concat (map contentToMessages xs) =
     map (\<lambda>c. \<lparr>wireRole = wireRoleOf c, wireContent = joinedText c\<rparr>)
       (filter reachesWire (List.map_filter itemContent xs))"
proof (induction xs)
  case Nil
  show ?case by simp
next
  case (Cons x xs)
  then show ?case
    by (cases x) (simp_all add: contentToMessages_ContentItem del: contentToMessages.simps(3))
qed

lemma buildMessages_eq:
  "buildMessages cs =
     map (\<lambda>c. \<lparr>wireRole = wireRoleOf c, wireContent = joinedText c\<rparr>) (filter reachesWire (contentItems cs))"
  by (simp add: buildMessages_def contentItems_def contentToMessages_items)

lemma fromResponse_text:
  assumes "firstChoice data = Some c" "messageContent c = Some t" "t \<noteq> []"
  shows "responseParts (fromResponse False data) = [[TextPart t]]"
  using assms by (simp add: fromResponse_def responseParts_def modelCandidate_def)

lemma buildMessages_content_nonempty: "m \<in> set (buildMessages cs) \<Longrightarrow> wireContent m \<noteq> []"
  by (auto simp: buildMessages_eq reachesWire_def)

text \<open>
  Claim C8, as the code has it.  Of the canonical messages of a request (whatever their parts,
  so also when all are text parts), those with a role, a part list and a non-empty text are
  sent, in order, each as one wire message whose role is \<^verbatim>\<open>assistant\<close> for \<^verbatim>\<open>model\<close> and the
  role unchanged otherwise, and whose content is the texts of the parts joined with newlines.
  Whatever response carries the content of a sent message in its first choice is translated
  (without extraction of reasoning text) to one candidate whose part list is that content,
  unaltered, as a single text part.  For a message of one text part the content sent is that
  text.
\<close>

theorem text_round_trip:
  "buildMessages cs =
     map (\<lambda>c. \<lparr>wireRole = wireRoleOf c, wireContent = joinedText c\<rparr>) (filter reachesWire (contentItems cs))
   \<and> (\<forall>m \<in> set (buildMessages cs). \<forall>data c.
         firstChoice data = Some c \<and> messageContent c = Some (wireContent m)
         \<longrightarrow> responseParts (fromResponse False data) = [[TextPart (wireContent m)]])
   \<and> (parts msg = Some [TextPart t] \<longrightarrow> joinedText msg = t)"
proof -
  have echo: "\<forall>m \<in> set (buildMessages cs). \<forall>data c.
         firstChoice data = Some c \<and> messageContent c = Some (wireContent m)
         \<longrightarrow> responseParts (fromResponse False data) = [[TextPart (wireContent m)]]"
    using fromResponse_text buildMessages_content_nonempty by blast
  have one: "parts msg = Some [TextPart t] \<longrightarrow> joinedText msg = t"
    by (simp add: joinedText_def List.map_filter_simps)
  from buildMessages_eq [of cs] echo one show ?thesis
    by blast
qed

theorem text_round_trip_witness:
  "contentItems helloFromUser = [\<lparr>role = Some ''user'', parts = Some [TextPart ''hello'']\<rparr>]
   \<and> buildMessages helloFromUser = [\<lparr>wireRole = ''user'', wireContent = ''hello''\<rparr>]
   \<and> \<lparr>wireRole = ''user'', wireContent = ''hello''\<rparr> \<in> set (buildMessages helloFromUser)
   \<and> firstChoice \<lparr>choices = [helloChoice], usage = None\<rparr> = Some helloChoice
   \<and> messageContent helloChoice = Some ''hello''
   \<and> responseParts (fromResponse False \<lparr>choices = [helloChoice], usage = None\<rparr>) = [[TextPart ''hello'']]
   \<and> joinedText \<lparr>role = Some ''user'', parts = Some [TextPart ''hello'']\<rparr> = ''hello''"
proof -
  let ?m = "\<lparr>wireRole = ''user'', wireContent = ''hello''\<rparr>"
  let ?data = "\<lparr>choices = [helloChoice], usage = None\<rparr>"
  have items: "contentItems helloFromUser = [\<lparr>role = Some ''user'', parts = Some [TextPart ''hello'']\<rparr>]"
    by (simp add: contentItems_def helloFromUser_def List.map_filter_simps)
  have sent: "buildMessages helloFromUser = [?m]"
    by (simp add: buildMessages_def helloFromUser_def List.map_filter_simps)
  then have mem: "?m \<in> set (buildMessages helloFromUser)"
    by simp
  have first: "firstChoice ?data = Some helloChoice"
    by (rule firstChoice_single)
  have cont: "messageContent helloChoice = Some (wireContent ?m)"
    by (simp add: helloChoice_def)
  from text_round_trip [of helloFromUser "\<lparr>role = Some ''user'', parts = Some [TextPart ''hello'']\<rparr>" "''hello''"]
  have all: "\<forall>m \<in> set (buildMessages helloFromUser). \<forall>data c.
         firstChoice data = Some c \<and> messageContent c = Some (wireContent m)
         \<longrightarrow> responseParts (fromResponse False data) = [[TextPart (wireContent m)]]"
    and one: "joinedText \<lparr>role = Some ''user'', parts = Some [TextPart ''hello'']\<rparr> = ''hello''"
    by simp_all
  from all mem first cont
  have "responseParts (fromResponse False ?data) = [[TextPart (wireContent ?m)]]"
    by blast
  with items sent mem first cont one show ?thesis
    by simp
qed

text \<open>
  Claim C8 as stated fails.  A user message of the two text parts \<^verbatim>\<open>a\<close> and \<^verbatim>\<open>b\<close> is sent
  as the one content \<^verbatim>\<open>a\<close>, newline, \<^verbatim>\<open>b\<close>, which is also what the message of that one text
  part is sent as: the two are different messages with the same wire message, so nothing can
  translate the wire message back to both, and a choice that carries this content is
  translated to a single text part.  A user message whose text is empty is not sent at all.
\<close>

theorem text_round_trip_counterexample:
  "contentItems twoPartMessage = [\<lparr>role = Some ''user'', parts = Some [TextPart ''a'', TextPart ''b'']\<rparr>]
   \<and> buildMessages twoPartMessage = [\<lparr>wireRole = ''user'', wireContent = [CHR ''a'', CHR 0x0A, CHR ''b'']\<rparr>]
   \<and> buildMessages joinedMessage = buildMessages twoPartMessage
   \<and> contentItems joinedMessage \<noteq> contentItems twoPartMessage
   \<and> responseParts (fromResponse False
        \<lparr>choices = [\<lparr>messageContent = Some [CHR ''a'', CHR 0x0A, CHR ''b''], reasoningContent = None,
                     toolCalls = None, finish_reason = Some ''stop''\<rparr>], usage = None\<rparr>)
       = [[TextPart [CHR ''a'', CHR 0x0A, CHR ''b'']]]
   \<and> contentItems emptyMessage = [\<lparr>role = Some ''user'', parts = Some [TextPart []]\<rparr>]
   \<and> buildMessages emptyMessage = []"
  by (simp add: buildMessages_def contentItems_def twoPartMessage_def joinedMessage_def
      emptyMessage_def List.map_filter_simps fromResponse_def responseParts_def firstChoice_def
      elemAt_def modelCandidate_def)

section \<open>Facts about searching and splitting\<close>

lemma splitFirst_absent: "p \<notin> set s \<Longrightarrow> splitFirst (p # ps) s = None"
  by (induction s) auto

lemma splitFirst_prepend:
  "p \<notin> set s \<Longrightarrow> splitFirst (p # ps) (s @ t) = map_option (\<lambda>(a, b). (s @ a, b)) (splitFirst (p # ps) t)"
proof (induction s)
  case Nil
  show ?case by (simp add: option.map_ident case_prod_unfold)
next
  case (Cons c s)
  then show ?case
    by (auto simp: option.map_comp comp_def case_prod_unfold)
qed

lemma splitFirst_here: "splitFirst (p # ps) ((p # ps) @ r) = Some ([], r)"
  by simp

lemma splitFirst_found:
  "p \<notin> set a \<Longrightarrow> splitFirst (p # ps) (a @ (p # ps) @ r) = Some (a, r)"
  by (induction a) auto

lemma split_absent: "p \<notin> set s \<Longrightarrow> split s (p # ps) = [s]"
  by (simp add: split.simps splitFirst_absent)

lemma split_found:
  "p \<notin> set a \<Longrightarrow> split (a @ (p # ps) @ r) (p # ps) = a # split r (p # ps)"
  by (subst split.simps) (simp add: splitFirst_found del: append.simps)

lemma split_nonempty: "split s [c] \<noteq> []"
  by (subst split.simps) (simp split: option.splits)

lemma split_char_Nil: "split [] [c] = [[]]"
  by (simp add: split.simps)

lemma split_char_Cons:
  "split (x # xs) [c] =
     (if x = c then [] # split xs [c]
      else (x # hd (split xs [c])) # tl (split xs [c]))"
proof (cases "x = c")
  case True
  then show ?thesis
    by (subst split.simps) simp
next
  case False
  have xs: "split xs [c] = (case splitFirst [c] xs of None \<Rightarrow> [xs] | Some (a, r) \<Rightarrow> a # split r [c])"
    by (subst split.simps) simp
  have "split (x # xs) [c] =
          (case splitFirst [c] xs of None \<Rightarrow> [x # xs] | Some (a, r) \<Rightarrow> (x # a) # split r [c])"
    using False by (subst split.simps) (simp split: option.splits)
  with False show ?thesis
    unfolding xs by (simp split: option.splits)
qed

lemma split_append_char:
  "split (a @ b) [c] = butlast (split a [c]) @ split (last (split a [c]) @ b) [c]"
proof (induction a)
  case Nil
  show ?case by (simp add: split_char_Nil)
next
  case (Cons x a)
  obtain h t where S: "split a [c] = h # t"
    using split_nonempty [of a c] by (cases "split a [c]") auto
  show ?case
  proof (cases "x = c")
    case True
    with Cons S show ?thesis
      by (simp add: split_char_Cons)
  next
    case False
    show ?thesis
    proof (cases t)
      case Nil
      with False Cons S show ?thesis
        by (simp add: split_char_Cons)
    next
      case (Cons t1 ts)
      with False Cons.IH S show ?thesis
        by (simp add: split_char_Cons)
    qed
  qed
qed

lemma completeLines_append:
  "completeLines (a @ b) = butlast (split a [CHR 0x0A]) @ completeLines (last (split a [CHR 0x0A]) @ b)"
  unfolding completeLines_def
  by (subst split_append_char) (simp add: butlast_append split_nonempty)

lemma stripLeading_keeps:
  assumes "\<forall>w\<in>set toks. c \<notin> set w" and "c \<in> set s"
  shows "c \<in> set (stripLeading toks s)"
  using assms
proof (induction toks s rule: stripLeading.induct)
  case (1 toks s)
  show ?case
  proof (cases "List.find (\<lambda>w. w \<noteq> [] \<and> prefix w s) toks")
    case None
    with "1.prems" show ?thesis
      by (subst stripLeading.simps) simp
  next
    case (Some w)
    then have w: "w \<in> set toks" and "prefix w s"
      by (auto simp: find_Some_iff)
    then obtain r where s: "s = w @ r"
      by (auto simp: prefix_def)
    from w "1.prems" have "c \<in> set (drop (length w) s)"
      by (auto simp: s)
    from "1.IH" [OF Some "1.prems"(1) this] show ?thesis
      by (subst stripLeading.simps) (simp add: Some)
  qed
qed

lemma trim_data_line: "prefix ''data: '' line \<Longrightarrow> trim line \<noteq> []"
proof -
  assume "prefix ''data: '' line"
  then obtain r where line: "line = ''data: '' @ r"
    by (auto simp: prefix_def)
  have "List.find (\<lambda>w. w \<noteq> [] \<and> prefix w line) whiteSpaces = None"
    by (simp add: whiteSpaces_def line)
  then have "stripLeading whiteSpaces line = line"
    by (subst stripLeading.simps) simp
  moreover have "CHR ''d'' \<in> set (rev line)"
    by (simp add: line)
  then have "CHR ''d'' \<in> set (stripLeading (map rev whiteSpaces) (rev line))"
    by (rule stripLeading_keeps [rotated]) (simp add: whiteSpaces_def)
  ultimately show ?thesis
    by (auto simp: trim_def)
qed

lemma lineKind_content_nonempty: "lineKind parse line = ContentLine c \<Longrightarrow> c \<noteq> []"
  by (auto simp: lineKind_def split: if_splits option.splits)

lemma processLine_lineKind:
  "processLine parse incl st line =
     (case lineKind parse line of
        Ignored \<Rightarrow> (Continue st, [])
      | DoneLine \<Rightarrow> (Return, [])
      | ContentLine c \<Rightarrow> (let (st', out) = processContent incl st c in (Continue st', out)))"
proof (cases "prefix ''data: '' line")
  case True
  then have "trim line \<noteq> []" by (rule trim_data_line)
  with True show ?thesis
    by (simp add: processLine_def lineKind_def Let_def split: option.splits)
next
  case False
  then show ?thesis
    by (simp add: processLine_def lineKind_def)
qed

lemma processLines_feed:
  "processLines parse incl st ls =
     (let ks = map (lineKind parse) ls;
          (st', out) = feedContents incl st (contentsUntilDone ks)
      in (if DoneLine \<in> set ks then Return else Continue st', out))"
proof (induction ls arbitrary: st)
  case Nil
  show ?case by simp
next
  case (Cons l ls)
  show ?case
  proof (cases "lineKind parse l")
    case Ignored
    then show ?thesis
      by (simp add: processLine_lineKind Cons.IH Let_def split: prod.splits)
  next
    case DoneLine
    then show ?thesis
      by (simp add: processLine_lineKind)
  next
    case (ContentLine c)
    then have "c \<noteq> []" by (rule lineKind_content_nonempty)
    with ContentLine show ?thesis
      by (simp add: processLine_lineKind Cons.IH Let_def split: prod.splits)
  qed
qed

section \<open>The generator as a function of the text of the stream\<close>

lemma feedContents_append:
  "feedContents incl st (xs @ ys) =
     (let (st', out) = feedContents incl st xs;
          (st'', out') = feedContents incl st' ys
      in (st'', out @ out'))"
  by (induction xs arbitrary: st) (simp_all add: Let_def split: prod.splits)

lemma contentsUntilDone_append:
  "contentsUntilDone (ks1 @ ks2) =
     (if DoneLine \<in> set ks1 then contentsUntilDone ks1
      else contentsUntilDone ks1 @ contentsUntilDone ks2)"
  by (induction ks1 rule: contentsUntilDone.induct) simp_all

lemma last_split_no_separator: "c \<notin> set (last (split s [c]))"
proof (induction s)
  case Nil
  show ?case by (simp add: split_char_Nil)
next
  case (Cons x s)
  obtain h t where S: "split s [c] = h # t"
    using split_nonempty [of s c] by (cases "split s [c]") auto
  with Cons show ?case
    by (cases t) (auto simp: split_char_Cons)
qed

lemma completeLines_no_newline: "CHR 0x0A \<notin> set s \<Longrightarrow> completeLines s = []"
  by (simp add: completeLines_def split_absent)

lemma readLoop_feed:
  assumes "CHR 0x0A \<notin> set buffer"
  shows "readLoop parse incl e st buffer rs =
     (let ks = map (lineKind parse) (completeLines (buffer @ concat rs));
          (st', out) = feedContents incl st (contentsUntilDone ks)
      in (out, if DoneLine \<in> set ks then None
               else (case e of Done \<Rightarrow> None | ReadFails err \<Rightarrow> Some err)))"
  using assms
proof (induction rs arbitrary: st buffer)
  case Nil
  then show ?case
    by (simp add: completeLines_no_newline split: stream_end.splits)
next
  case (Cons v rest)
  let ?lines = "split (buffer @ v) [CHR 0x0A]"
  have ne: "?lines \<noteq> []" by (rule split_nonempty)
  have nl: "CHR 0x0A \<notin> set (last ?lines)" by (rule last_split_no_separator)
  have cl: "completeLines (buffer @ concat (v # rest))
            = butlast ?lines @ completeLines (last ?lines @ concat rest)"
    using completeLines_append [of "buffer @ v" "concat rest"] by simp
  show ?case
    unfolding cl
    by (simp add: ne processLines_feed Cons.IH [OF nl] Let_def contentsUntilDone_append
        feedContents_append split: prod.splits)
qed

lemma createStreamGenerator_feed:
  assumes "body r = Some b"
  shows "createStreamGenerator parse r incl =
     (snd (feedContents incl initialState (streamContents parse (concat (reads b)))),
      if DoneLine \<in> set (map (lineKind parse) (completeLines (concat (reads b)))) then None
      else (case ending b of Done \<Rightarrow> None | ReadFails err \<Rightarrow> Some err))"
  using assms readLoop_feed [of "[]" parse incl "ending b" initialState "reads b"]
  by (simp add: createStreamGenerator_def streamContents_def Let_def split: prod.splits)

section \<open>The extractor on fragments that carry whole delimiters\<close>

lemma not_prefix_append:
  assumes "\<not> prefix xs tag" "\<not> prefix tag xs"
  shows "\<not> prefix tag (xs @ t)"
proof
  assume "prefix tag (xs @ t)"
  then consider "prefix tag xs" | us where "tag = xs @ us"
    unfolding prefix_append by blast
  then show False
    using assms by cases auto
qed

lemma noStart_splitFirst:
  assumes "noStart tag s" "tag \<noteq> []"
  shows "splitFirst tag (s @ t) = map_option (\<lambda>(a, b). (s @ a, b)) (splitFirst tag t)"
  using assms(1)
proof (induction s)
  case Nil
  show ?case by (simp add: option.map_ident case_prod_unfold)
next
  case (Cons c cs)
  then have here: "\<not> prefix (c # cs) tag" "\<not> prefix tag (c # cs)" and rest: "noStart tag cs"
    by simp_all
  have "\<not> prefix tag ((c # cs) @ t)"
    using here by (rule not_prefix_append)
  then show ?case
    using Cons.IH [OF rest]
    by (simp add: option.map_comp comp_def case_prod_unfold)
qed

lemma noStart_append:
  assumes "noStart tag a" "noStart tag b"
  shows "noStart tag (a @ b)"
  using assms(1)
proof (induction a)
  case Nil
  show ?case using assms(2) by simp
next
  case (Cons c cs)
  then have here: "\<not> prefix (c # cs) tag" "\<not> prefix tag (c # cs)" and rest: "noStart tag cs"
    by simp_all
  have "\<not> prefix ((c # cs) @ b) tag"
    using here(1) append_prefixD by blast
  moreover have "\<not> prefix tag ((c # cs) @ b)"
    using here by (rule not_prefix_append)
  ultimately show ?case
    using Cons.IH [OF rest] by simp
qed

lemma noStart_absent:
  assumes "noStart tag s" "tag \<noteq> []"
  shows "splitFirst tag s = None"
  using noStart_splitFirst [OF assms, of "[]"] assms(2) by simp

lemma noStart_found:
  assumes "noStart tag a" "tag \<noteq> []"
  shows "splitFirst tag (a @ tag @ r) = Some (a, r)"
proof -
  obtain p ps where tag: "tag = p # ps"
    using assms(2) by (cases tag) auto
  have "splitFirst tag (tag @ r) = Some ([], r)"
    unfolding tag by (rule splitFirst_here)
  then show ?thesis
    using noStart_splitFirst [OF assms, of "tag @ r"] by simp
qed

lemma noStart_other_character: "p \<notin> set s \<Longrightarrow> noStart (p # ps) s"
  by (induction s) auto

lemma tagFree_append: "tagFree a \<Longrightarrow> tagFree b \<Longrightarrow> tagFree (a @ b)"
  by (simp add: tagFree_def noStart_append)

lemma tagFree_Nil [simp]: "tagFree []"
  by (simp add: tagFree_def)

lemma tagFree_concat: "list_all tagFree xs \<Longrightarrow> tagFree (concat xs)"
  by (induction xs) (simp_all add: tagFree_append)

lemma tagFree_without_angle: "CHR ''<'' \<notin> set s \<Longrightarrow> tagFree s"
  by (simp add: tagFree_def noStart_other_character)

lemma no_delimiter:
  assumes "tagFree s"
  shows "\<not> includesStr s ''<thinking>''" and "\<not> includesStr s ''</thinking>''"
  using assms by (simp_all add: includesStr_def tagFree_def noStart_absent)

lemma opener_has_open:
  assumes "tagFree a"
  shows "includesStr (a @ ''<thinking>'' @ b) ''<thinking>''"
  using assms noStart_found [of "''<thinking>''" a b]
  by (simp add: includesStr_def tagFree_def)

lemma closer_has_no_open:
  assumes "tagFree c" "tagFree d"
  shows "\<not> includesStr (c @ ''</thinking>'' @ d) ''<thinking>''"
proof -
  have "noStart ''<thinking>'' ''</thinking>''"
    by simp
  with assms have "noStart ''<thinking>'' (c @ ''</thinking>'' @ d)"
    by (simp only: tagFree_def noStart_append)
  from noStart_absent [OF this] show ?thesis
    by (simp add: includesStr_def)
qed

lemma closer_has_close:
  assumes "tagFree c"
  shows "includesStr (c @ ''</thinking>'' @ d) ''</thinking>''"
  using assms noStart_found [of "''</thinking>''" c d]
  by (simp add: includesStr_def tagFree_def)

lemma split_at_tag:
  assumes "noStart tag a" "noStart tag b" "tag \<noteq> []"
  shows "split (a @ tag @ b) tag = [a, b]"
proof -
  have s1: "split (a @ tag @ b) tag = a # split b tag"
    using noStart_found [OF assms(1,3), of b] assms(3) by (subst split.simps) simp
  have s2: "split b tag = [b]"
    using noStart_absent [OF assms(2,3)] assms(3) by (subst split.simps) simp
  show ?thesis
    unfolding s1 s2 ..
qed

lemma split_opener:
  assumes "tagFree a" "tagFree b"
  shows "split (a @ ''<thinking>'' @ b) ''<thinking>'' = [a, b]"
  using assms by (intro split_at_tag) (simp_all add: tagFree_def)

lemma split_closer:
  assumes "tagFree c" "tagFree d"
  shows "split (c @ ''</thinking>'' @ d) ''</thinking>'' = [c, d]"
  using assms by (intro split_at_tag) (simp_all add: tagFree_def)

lemma openingBranch_clean:
  assumes "tagFree a" "tagFree b"
  shows "openingBranch st (a @ ''<thinking>'' @ b) =
           (\<lparr>isInThinking = True, thinkingContent = thinkingContent st @ b,
             mainContent = mainContent st @ a\<rparr>,
            if a = [] then [] else [createStreamResponse a Main])"
  unfolding openingBranch_def split_opener [OF assms]
  by (cases st) (simp add: elemAt_def Let_def)

lemma closingBranch_clean:
  assumes "tagFree c" "tagFree d"
  shows "closingBranch st (c @ ''</thinking>'' @ d) =
           (\<lparr>isInThinking = False, thinkingContent = [],
             mainContent = mainContent st @ d\<rparr>,
            (if thinkingContent st @ c = [] then [] else [createStreamResponse (thinkingContent st @ c) Thinking])
            @ (if d = [] then [] else [createStreamResponse d Main]))"
  unfolding closingBranch_def split_closer [OF assms]
  by (cases st) (simp add: elemAt_def Let_def)

lemma processContent_opener:
  assumes "tagFree a" "tagFree b"
  shows "processContent True st (a @ ''<thinking>'' @ b) =
           (\<lparr>isInThinking = True, thinkingContent = thinkingContent st @ b,
             mainContent = mainContent st @ a\<rparr>,
            if a = [] then [] else [createStreamResponse a Main])"
  using opener_has_open [OF assms(1), of b]
  by (simp only: processContent_def openingBranch_clean [OF assms]) simp

lemma processContent_closer:
  assumes "tagFree c" "tagFree d"
  shows "processContent True st (c @ ''</thinking>'' @ d) =
           (\<lparr>isInThinking = False, thinkingContent = [],
             mainContent = mainContent st @ d\<rparr>,
            (if thinkingContent st @ c = [] then [] else [createStreamResponse (thinkingContent st @ c) Thinking])
            @ (if d = [] then [] else [createStreamResponse d Main]))"
  using closer_has_no_open [OF assms] closer_has_close [OF assms(1), of d]
  by (simp only: processContent_def closingBranch_clean [OF assms]) simp

lemma processContent_plain:
  assumes "\<not> includesStr s ''<thinking>''" "\<not> includesStr s ''</thinking>''"
  shows "processContent incl st s =
           (if isInThinking st
            then (st\<lparr>thinkingContent := thinkingContent st @ s\<rparr>, [createStreamResponse s Thinking])
            else (st\<lparr>mainContent := mainContent st @ s\<rparr>, [createStreamResponse s Main]))"
  using assms by (simp add: processContent_def)

lemma feed_inside:
  assumes "isInThinking st" "list_all tagFree mids"
  shows "feedContents True st mids =
           (st\<lparr>thinkingContent := thinkingContent st @ concat mids\<rparr>,
            map (\<lambda>m. createStreamResponse m Thinking) (filter (\<lambda>m. m \<noteq> []) mids))"
  using assms
proof (induction mids arbitrary: st)
  case Nil
  show ?case by simp
next
  case (Cons m mids)
  then have m: "tagFree m" and rest: "list_all tagFree mids"
    by simp_all
  have step: "processContent True st m =
                (st\<lparr>thinkingContent := thinkingContent st @ m\<rparr>, [createStreamResponse m Thinking])"
    using processContent_plain [OF no_delimiter [OF m], of True st] Cons.prems(1) by simp
  have inside: "isInThinking (st\<lparr>thinkingContent := thinkingContent st @ m\<rparr>)"
    using Cons.prems(1) by simp
  show ?case
    by (simp add: step Cons.IH [OF inside rest] Cons.IH [OF Cons.prems(1) rest])
qed

lemma feed_single: "c \<noteq> [] \<Longrightarrow> feedContents incl st [c] = processContent incl st c"
  by (simp split: prod.splits)

lemma feed_segment:
  assumes "cleanSegment seg" "\<not> isInThinking st" "thinkingContent st = []"
  shows "feedContents True st (fragments seg) =
           (\<lparr>isInThinking = False, thinkingContent = [],
             mainContent = mainContent st @ segmentMain seg\<rparr>,
            segmentEmissions seg)"
proof (cases seg)
  case (Outside s)
  with assms have "tagFree s" by simp
  from processContent_plain [OF no_delimiter [OF this], of True st] assms(2,3) Outside
  show ?thesis
    by (cases st) simp
next
  case (SpanSegment a b mids c d)
  with assms(1) have cl: "tagFree a" "tagFree b" "list_all tagFree mids" "tagFree c" "tagFree d"
    by simp_all
  let ?st1 = "\<lparr>isInThinking = True, thinkingContent = thinkingContent st @ b,
             mainContent = mainContent st @ a\<rparr>"
  let ?st2 = "?st1\<lparr>thinkingContent := thinkingContent ?st1 @ concat mids\<rparr>"
  have ne1: "a @ ''<thinking>'' @ b \<noteq> []" and ne3: "c @ ''</thinking>'' @ d \<noteq> []"
    by simp_all
  have f1: "feedContents True st [a @ ''<thinking>'' @ b] =
              (?st1, if a = [] then [] else [createStreamResponse a Main])"
    unfolding feed_single [OF ne1] by (rule processContent_opener [OF cl(1,2)])
  have f2: "feedContents True ?st1 mids =
              (?st2, map (\<lambda>m. createStreamResponse m Thinking) (filter (\<lambda>m. m \<noteq> []) mids))"
    by (rule feed_inside [OF _ cl(3)]) simp
  have f3: "feedContents True ?st2 [c @ ''</thinking>'' @ d] =
              (\<lparr>isInThinking = False, thinkingContent = [], mainContent = mainContent ?st2 @ d\<rparr>,
               (if thinkingContent ?st2 @ c = [] then []
                else [createStreamResponse (thinkingContent ?st2 @ c) Thinking])
               @ (if d = [] then [] else [createStreamResponse d Main]))"
    unfolding feed_single [OF ne3] by (rule processContent_closer [OF cl(4,5)])
  have "feedContents True st (fragments seg) =
          feedContents True st ([a @ ''<thinking>'' @ b] @ mids @ [c @ ''</thinking>'' @ d])"
    unfolding SpanSegment fragments.simps ..
  also have "\<dots> = (\<lparr>isInThinking = False, thinkingContent = [], mainContent = mainContent ?st2 @ d\<rparr>,
               (if a = [] then [] else [createStreamResponse a Main])
               @ map (\<lambda>m. createStreamResponse m Thinking) (filter (\<lambda>m. m \<noteq> []) mids)
               @ (if thinkingContent ?st2 @ c = [] then []
                  else [createStreamResponse (thinkingContent ?st2 @ c) Thinking])
               @ (if d = [] then [] else [createStreamResponse d Main]))"
    by (simp only: feedContents_append f1 f2 f3 Let_def prod.case)
  also have "\<dots> = (\<lparr>isInThinking = False, thinkingContent = [],
             mainContent = mainContent st @ segmentMain seg\<rparr>, segmentEmissions seg)"
    using assms(3) by (simp add: SpanSegment)
  finally show ?thesis .
qed

lemma feed_segments:
  assumes "list_all cleanSegment segs" "\<not> isInThinking st" "thinkingContent st = []"
  shows "feedContents True st (concat (map fragments segs)) =
           (\<lparr>isInThinking = False, thinkingContent = [],
             mainContent = mainContent st @ concat (map segmentMain segs)\<rparr>,
            concat (map segmentEmissions segs))"
  using assms
proof (induction segs arbitrary: st)
  case Nil
  then show ?case by (cases st) simp
next
  case (Cons seg segs)
  then have seg: "cleanSegment seg" and rest: "list_all cleanSegment segs"
    by simp_all
  show ?case
    by (simp add: feedContents_append feed_segment [OF seg Cons.prems(2,3)]
        Cons.IH [OF rest])
qed

section \<open>What a list of partial responses carries\<close>

lemma map_filter_append: "List.map_filter f (xs @ ys) = List.map_filter f xs @ List.map_filter f ys"
  by (simp add: List.map_filter_def)

lemma allParts_simps:
  "allParts [] = []"
  "allParts (rs @ rs') = allParts rs @ allParts rs'"
  "allParts (createStreamResponse t ty # rs) =
     (case ty of Thinking \<Rightarrow> ThinkingPart t | Main \<Rightarrow> TextPart t) # allParts rs"
  by (simp_all add: allParts_def responseParts_def createStreamResponse_def modelCandidate_def)

lemma mainTexts_simps:
  "mainTexts [] = []"
  "mainTexts (rs @ rs') = mainTexts rs @ mainTexts rs'"
  "mainTexts (createStreamResponse t Main # rs) = t # mainTexts rs"
  "mainTexts (createStreamResponse t Thinking # rs) = mainTexts rs"
  by (simp_all add: mainTexts_def allParts_simps map_filter_append)

lemma thinkingTexts_simps:
  "thinkingTexts [] = []"
  "thinkingTexts (rs @ rs') = thinkingTexts rs @ thinkingTexts rs'"
  "thinkingTexts (createStreamResponse t Main # rs) = thinkingTexts rs"
  "thinkingTexts (createStreamResponse t Thinking # rs) = t # thinkingTexts rs"
  by (simp_all add: thinkingTexts_def allParts_simps map_filter_append)

lemma thinkingTexts_echo:
  "thinkingTexts (map (\<lambda>m. createStreamResponse m Thinking) ms @ rs) = ms @ thinkingTexts rs"
  by (induction ms) (simp_all add: thinkingTexts_simps(3,4))

lemma mainTexts_echo:
  "mainTexts (map (\<lambda>m. createStreamResponse m Thinking) ms @ rs) = mainTexts rs"
  by (induction ms) (simp_all add: mainTexts_simps(3,4))

lemma thinkingTexts_echo_only:
  "thinkingTexts (map (\<lambda>m. createStreamResponse m Thinking) ms) = ms"
  using thinkingTexts_echo [of ms "[]"] by (simp add: thinkingTexts_simps(1))

lemma mainTexts_echo_only:
  "mainTexts (map (\<lambda>m. createStreamResponse m Thinking) ms) = []"
  using mainTexts_echo [of ms "[]"] by (simp add: mainTexts_simps(1))

lemma segment_main: "concat (mainTexts (segmentEmissions seg)) = segmentMain seg"
proof (cases seg)
  case (Outside s)
  then show ?thesis by (simp add: mainTexts_simps)
next
  case (SpanSegment a b mids c d)
  then show ?thesis by (simp add: mainTexts_simps mainTexts_echo mainTexts_echo_only)
qed

lemma segment_thinking: "thinkingTexts (segmentEmissions seg) = segmentThinking seg"
proof (cases seg)
  case (Outside s)
  then show ?thesis by (simp add: thinkingTexts_simps)
next
  case (SpanSegment a b mids c d)
  then show ?thesis by (simp add: thinkingTexts_simps thinkingTexts_echo thinkingTexts_echo_only)
qed

lemma segments_main:
  "concat (mainTexts (concat (map segmentEmissions segs))) = concat (map segmentMain segs)"
  by (induction segs) (simp_all add: mainTexts_simps segment_main)

lemma segments_thinking:
  "thinkingTexts (concat (map segmentEmissions segs)) = concat (map segmentThinking segs)"
  by (induction segs) (simp_all add: thinkingTexts_simps segment_thinking)

section \<open>Thinking spans read off the text\<close>

lemma removeThinkingSpans_plain:
  assumes "tagFree s"
  shows "removeThinkingSpans (s @ t) = s @ removeThinkingSpans t"
proof -
  have p: "splitFirst ''<thinking>'' (s @ t) = map_option (\<lambda>(a, b). (s @ a, b)) (splitFirst ''<thinking>'' t)"
    using assms by (intro noStart_splitFirst) (simp_all add: tagFree_def)
  show ?thesis
    by (subst removeThinkingSpans.simps, subst (2) removeThinkingSpans.simps)
       (simp add: p split: option.splits)
qed

lemma thinkingSpans_plain:
  assumes "tagFree s"
  shows "thinkingSpans (s @ t) = thinkingSpans t"
proof -
  have p: "splitFirst ''<thinking>'' (s @ t) = map_option (\<lambda>(a, b). (s @ a, b)) (splitFirst ''<thinking>'' t)"
    using assms by (intro noStart_splitFirst) (simp_all add: tagFree_def)
  show ?thesis
    by (subst thinkingSpans.simps, subst (2) thinkingSpans.simps)
       (simp add: p split: option.splits)
qed

lemma span_found:
  assumes "tagFree a" "tagFree i"
  shows "splitFirst ''<thinking>'' (a @ ''<thinking>'' @ i @ ''</thinking>'' @ t)
           = Some (a, i @ ''</thinking>'' @ t)"
    and "splitFirst ''</thinking>'' (i @ ''</thinking>'' @ t) = Some (i, t)"
  using assms noStart_found [of "''<thinking>''" a "i @ ''</thinking>'' @ t"]
    noStart_found [of "''</thinking>''" i t]
  by (simp_all add: tagFree_def)

lemma removeThinkingSpans_span:
  assumes "tagFree a" "tagFree i"
  shows "removeThinkingSpans (a @ ''<thinking>'' @ i @ ''</thinking>'' @ t) = a @ removeThinkingSpans t"
  by (subst removeThinkingSpans.simps) (simp only: span_found [OF assms] option.case prod.case)

lemma thinkingSpans_span:
  assumes "tagFree a" "tagFree i"
  shows "thinkingSpans (a @ ''<thinking>'' @ i @ ''</thinking>'' @ t) = i # thinkingSpans t"
  by (subst thinkingSpans.simps) (simp only: span_found [OF assms] option.case prod.case)

lemma spans_empty: "removeThinkingSpans [] = []" "thinkingSpans [] = []"
  by (simp_all add: removeThinkingSpans.simps thinkingSpans.simps)

lemma segment_text:
  assumes "cleanSegment seg"
  shows "removeThinkingSpans (concat (fragments seg) @ t) = segmentMain seg @ removeThinkingSpans t"
    and "thinkingSpans (concat (fragments seg) @ t) = List.map_filter segmentInterior [seg] @ thinkingSpans t"
proof -
  show "removeThinkingSpans (concat (fragments seg) @ t) = segmentMain seg @ removeThinkingSpans t"
  proof (cases seg)
    case (Outside s)
    with assms show ?thesis by (simp add: removeThinkingSpans_plain)
  next
    case (SpanSegment a b mids c d)
    with assms have cl: "tagFree a" "tagFree (b @ concat mids @ c)" "tagFree d"
      by (simp_all add: tagFree_concat tagFree_append)
    have "concat (fragments seg) @ t = a @ ''<thinking>'' @ (b @ concat mids @ c) @ ''</thinking>'' @ (d @ t)"
      by (simp add: SpanSegment)
    then show ?thesis
      by (simp only: removeThinkingSpans_span [OF cl(1,2)] removeThinkingSpans_plain [OF cl(3)])
         (simp add: SpanSegment)
  qed
  show "thinkingSpans (concat (fragments seg) @ t) = List.map_filter segmentInterior [seg] @ thinkingSpans t"
  proof (cases seg)
    case (Outside s)
    with assms show ?thesis by (simp add: thinkingSpans_plain)
  next
    case (SpanSegment a b mids c d)
    with assms have cl: "tagFree a" "tagFree (b @ concat mids @ c)" "tagFree d"
      by (simp_all add: tagFree_concat tagFree_append)
    have "concat (fragments seg) @ t = a @ ''<thinking>'' @ (b @ concat mids @ c) @ ''</thinking>'' @ (d @ t)"
      by (simp add: SpanSegment)
    then show ?thesis
      by (simp only: thinkingSpans_span [OF cl(1,2)] thinkingSpans_plain [OF cl(3)])
         (simp add: SpanSegment)
  qed
qed

lemma segments_text:
  assumes "list_all cleanSegment segs"
  shows "removeThinkingSpans (concat (concat (map fragments segs))) = concat (map segmentMain segs)"
    and "thinkingSpans (concat (concat (map fragments segs))) = List.map_filter segmentInterior segs"
  using assms
proof (induction segs)
  case Nil
  case 1 show ?case by (simp add: spans_empty)
  case 2 show ?case by (simp add: spans_empty)
next
  case (Cons seg segs)
  case 1
  then show ?case using Cons.IH(1) by (simp add: segment_text(1))
  case 2
  then show ?case using Cons.IH(2) segment_text(2) [of seg "concat (concat (map fragments segs))"]
    by (simp add: map_filter_append [of segmentInterior "[seg]" segs, simplified])
qed

section \<open>The streaming thinking extractor\<close>

text \<open>
  Claim C1, as the code has it.  Take a stream in which every delimiter arrives whole, no
  fragment holds two delimiters, opening and closing delimiters alternate, and the texts
  around the delimiters neither contain a delimiter nor end with the beginning of one.  Then the concatenation of the main-channel
  emissions is the full text with its thinking spans removed; and the thinking-channel emissions
  of a span are every non-empty fragment inside the span, emitted as it arrives, followed by
  one emission that is the interior of the span exactly.  In particular a fragment without
  delimiter that arrives inside a span is appended to the buffer and emitted at once on the
  thinking channel.  The last conjunct says that the generator, on a stream that ends, yields
  what the contents of its records yield one after the other, and returns.
\<close>

theorem extractor_on_whole_delimiters:
  assumes "list_all cleanSegment segs"
  shows
   "(isInThinking st \<and> \<not> includesStr c ''<thinking>'' \<and> \<not> includesStr c ''</thinking>''
       \<longrightarrow> processContent incl st c
            = (st\<lparr>thinkingContent := thinkingContent st @ c\<rparr>, [createStreamResponse c Thinking]))
    \<and> concat (mainTexts (snd (feedContents True initialState (concat (map fragments segs)))))
        = removeThinkingSpans (concat (concat (map fragments segs)))
    \<and> thinkingTexts (snd (feedContents True initialState (concat (map fragments segs))))
        = concat (map segmentThinking segs)
    \<and> thinkingSpans (concat (concat (map fragments segs))) = List.map_filter segmentInterior segs
    \<and> (body r = Some b \<and> ending b = Done
         \<longrightarrow> createStreamGenerator parse r incl
              = (snd (feedContents incl initialState (streamContents parse (concat (reads b)))), None))"
proof -
  have inside: "processContent incl st c
            = (st\<lparr>thinkingContent := thinkingContent st @ c\<rparr>, [createStreamResponse c Thinking])"
    if "isInThinking st" "\<not> includesStr c ''<thinking>''" "\<not> includesStr c ''</thinking>''"
    using processContent_plain [OF that(2,3), of incl st] that(1) by simp
  have feed: "feedContents True initialState (concat (map fragments segs)) =
           (\<lparr>isInThinking = False, thinkingContent = [],
             mainContent = mainContent initialState @ concat (map segmentMain segs)\<rparr>,
            concat (map segmentEmissions segs))"
    by (rule feed_segments [OF assms]) (simp_all add: initialState_def)
  have main: "concat (mainTexts (snd (feedContents True initialState (concat (map fragments segs)))))
        = removeThinkingSpans (concat (concat (map fragments segs)))"
    unfolding feed snd_conv segments_main segments_text(1) [OF assms] ..
  have think: "thinkingTexts (snd (feedContents True initialState (concat (map fragments segs))))
        = concat (map segmentThinking segs)"
    unfolding feed snd_conv segments_thinking ..
  have gen: "createStreamGenerator parse r incl
              = (snd (feedContents incl initialState (streamContents parse (concat (reads b)))), None)"
    if "body r = Some b" "ending b = Done"
    using createStreamGenerator_feed [OF that(1), of parse incl] that(2) by simp
  from inside main think segments_text(2) [OF assms] gen show ?thesis
    by blast
qed

theorem extractor_on_whole_delimiters_witness:
  "list_all cleanSegment wholeDelimiterSegments
   \<and> concat (map fragments wholeDelimiterSegments)
       = [''Let me '', ''see: 1<2 <thinking>rea'', ''s'', ''on</thinking> done'']
   \<and> concat (mainTexts (snd (feedContents True initialState (concat (map fragments wholeDelimiterSegments)))))
       = ''Let me see: 1<2  done''
   \<and> thinkingTexts (snd (feedContents True initialState (concat (map fragments wholeDelimiterSegments))))
       = [''s'', ''reason'']
   \<and> thinkingSpans (concat (concat (map fragments wholeDelimiterSegments))) = [''reason'']
   \<and> isInThinking \<lparr>isInThinking = True, thinkingContent = ''a'', mainContent = []\<rparr>
   \<and> \<not> includesStr ''b'' ''<thinking>'' \<and> \<not> includesStr ''b'' ''</thinking>''
   \<and> processContent True \<lparr>isInThinking = True, thinkingContent = ''a'', mainContent = []\<rparr> ''b''
       = (\<lparr>isInThinking = True, thinkingContent = ''ab'', mainContent = []\<rparr>, [createStreamResponse ''b'' Thinking])
   \<and> body (streamResponse unterminatedStream Done) = Some \<lparr>reads = unterminatedStream, ending = Done\<rparr>
   \<and> ending \<lparr>reads = unterminatedStream, ending = Done\<rparr> = Done
   \<and> createStreamGenerator exampleChunkParse (streamResponse unterminatedStream Done) True
       = (snd (feedContents True initialState (streamContents exampleChunkParse (concat unterminatedStream))), None)"
proof -
  have h: "list_all cleanSegment wholeDelimiterSegments"
    by (simp add: wholeDelimiterSegments_def tagFree_def)
  have f: "concat (map fragments wholeDelimiterSegments)
       = [''Let me '', ''see: 1<2 <thinking>rea'', ''s'', ''on</thinking> done'']"
    by (simp add: wholeDelimiterSegments_def)
  have r: "removeThinkingSpans (concat (concat (map fragments wholeDelimiterSegments))) = ''Let me see: 1<2  done''"
    by code_simp
  have t: "concat (map segmentThinking wholeDelimiterSegments) = [''s'', ''reason'']"
    by (simp add: wholeDelimiterSegments_def)
  have i: "List.map_filter segmentInterior wholeDelimiterSegments = [''reason'']"
    by (simp add: wholeDelimiterSegments_def)
  have n: "\<not> includesStr ''b'' ''<thinking>''" "\<not> includesStr ''b'' ''</thinking>''"
    by (simp_all add: includesStr_def)
  have b: "body (streamResponse unterminatedStream Done) = Some \<lparr>reads = unterminatedStream, ending = Done\<rparr>"
    by (simp add: streamResponse_def)
  from extractor_on_whole_delimiters [OF h,
      of "\<lparr>isInThinking = True, thinkingContent = ''a'', mainContent = []\<rparr>" "''b''" True
         "streamResponse unterminatedStream Done" "\<lparr>reads = unterminatedStream, ending = Done\<rparr>"
         exampleChunkParse]
    h f r t i n b
  show ?thesis
    by simp
qed

text \<open>
  Claim C1 as stated fails on the scenario of the specification, the fragments
  \<^verbatim>\<open>Let me <thi\<close>, \<^verbatim>\<open>nking>rea\<close>, \<^verbatim>\<open>son</thinking> done\<close>: the opening delimiter is split
  and is not recognised, so the main channel carries \<^verbatim>\<open>Let me <thinking>rea done\<close> and the
  thinking channel carries \<^verbatim>\<open>son\<close>.  And inside a span a fragment without delimiter is
  emitted at once.
\<close>

theorem split_delimiter_counterexample:
  "createStreamGenerator exampleChunkParse (streamResponse splitDelimiterStream Done) True
     = ([createStreamResponse ''Let me <thi'' Main, createStreamResponse ''nking>rea'' Main,
         createStreamResponse ''son'' Thinking, createStreamResponse '' done'' Main], None)
   \<and> streamContents exampleChunkParse (concat splitDelimiterStream)
       = [''Let me <thi'', ''nking>rea'', ''son</thinking> done'']
   \<and> removeThinkingSpans (concat (streamContents exampleChunkParse (concat splitDelimiterStream)))
       = ''Let me  done''
   \<and> thinkingSpans (concat (streamContents exampleChunkParse (concat splitDelimiterStream))) = [''reason'']
   \<and> concat (mainTexts (fst (createStreamGenerator exampleChunkParse (streamResponse splitDelimiterStream Done) True)))
       = ''Let me <thinking>rea done''
   \<and> thinkingTexts (fst (createStreamGenerator exampleChunkParse (streamResponse splitDelimiterStream Done) True))
       = [''son'']
   \<and> snd (processContent True \<lparr>isInThinking = True, thinkingContent = ''a'', mainContent = []\<rparr> ''b'')
       = [createStreamResponse ''b'' Thinking]"
  by code_simp

section \<open>A span that is never closed\<close>

lemma feed_unterminated:
  assumes "tagFree a" "tagFree b" "list_all tagFree mids"
  shows "feedContents True st ([a @ ''<thinking>'' @ b] @ mids) =
           (\<lparr>isInThinking = True, thinkingContent = thinkingContent st @ b @ concat mids,
             mainContent = mainContent st @ a\<rparr>,
            (if a = [] then [] else [createStreamResponse a Main])
            @ map (\<lambda>m. createStreamResponse m Thinking) (filter (\<lambda>m. m \<noteq> []) mids))"
proof -
  let ?st1 = "\<lparr>isInThinking = True, thinkingContent = thinkingContent st @ b,
             mainContent = mainContent st @ a\<rparr>"
  have ne1: "a @ ''<thinking>'' @ b \<noteq> []"
    by simp
  have f1: "feedContents True st [a @ ''<thinking>'' @ b] =
              (?st1, if a = [] then [] else [createStreamResponse a Main])"
    unfolding feed_single [OF ne1] by (rule processContent_opener [OF assms(1,2)])
  have f2: "feedContents True ?st1 mids =
              (?st1\<lparr>thinkingContent := thinkingContent ?st1 @ concat mids\<rparr>,
               map (\<lambda>m. createStreamResponse m Thinking) (filter (\<lambda>m. m \<noteq> []) mids))"
    by (rule feed_inside [OF _ assms(3)]) simp
  show ?thesis
    by (simp only: feedContents_append f1 f2 Let_def prod.case) simp
qed

text \<open>
  Claim C2, as the code has it.  Whenever the stream ends or \<^verbatim>\<open>[DONE]\<close> arrives, the generator
  returns normally, and what it has yielded is what its contents yield one after the other:
  it yields nothing for the end of the stream, so what the buffer holds then is dropped.  Take
  a stream in which an opening delimiter arrives whole in a fragment whose texts before and
  after it are free of tags, and is followed by fragments free of tags only, so that the span
  is never closed.  The text after the opening delimiter in its own fragment is never emitted.
  But each non-empty fragment that arrives after the opening delimiter is emitted on the
  thinking channel as it arrives, so the span has no thinking emission only when no such
  fragment arrives.
\<close>

theorem unterminated_span_is_not_flushed:
  assumes "body r = Some bd"
    and "ending bd = Done \<or> DoneLine \<in> set (map (lineKind parse) (completeLines (concat (reads bd))))"
  shows "createStreamGenerator parse r incl =
           (snd (feedContents incl initialState (streamContents parse (concat (reads bd)))), None)
         \<and> (tagFree a \<and> tagFree b \<and> list_all tagFree mids
            \<and> streamContents parse (concat (reads bd)) = pre @ [a @ ''<thinking>'' @ b] @ mids
            \<longrightarrow> createStreamGenerator parse r True =
                  (snd (feedContents True initialState pre)
                   @ (if a = [] then [] else [createStreamResponse a Main])
                   @ map (\<lambda>m. createStreamResponse m Thinking) (filter (\<lambda>m. m \<noteq> []) mids),
                   None)
                \<and> thinkingTexts (fst (createStreamGenerator parse r True))
                  = thinkingTexts (snd (feedContents True initialState pre)) @ filter (\<lambda>m. m \<noteq> []) mids)"
proof -
  have gen: "createStreamGenerator parse r i =
           (snd (feedContents i initialState (streamContents parse (concat (reads bd)))), None)" for i
    using createStreamGenerator_feed [OF assms(1), of parse i] assms(2)
    by (auto split: stream_end.splits)
  have span: "createStreamGenerator parse r True =
                  (snd (feedContents True initialState pre)
                   @ (if a = [] then [] else [createStreamResponse a Main])
                   @ map (\<lambda>m. createStreamResponse m Thinking) (filter (\<lambda>m. m \<noteq> []) mids),
                   None)
                \<and> thinkingTexts (fst (createStreamGenerator parse r True))
                  = thinkingTexts (snd (feedContents True initialState pre)) @ filter (\<lambda>m. m \<noteq> []) mids"
    if h: "tagFree a" "tagFree b" "list_all tagFree mids"
      and c: "streamContents parse (concat (reads bd)) = pre @ [a @ ''<thinking>'' @ b] @ mids"
  proof -
    obtain st out where pre: "feedContents True initialState pre = (st, out)"
      by (cases "feedContents True initialState pre")
    have out: "snd (feedContents True initialState (streamContents parse (concat (reads bd)))) =
           snd (feedContents True initialState pre)
            @ (if a = [] then [] else [createStreamResponse a Main])
            @ map (\<lambda>m. createStreamResponse m Thinking) (filter (\<lambda>m. m \<noteq> []) mids)"
      unfolding c
      by (simp only: feedContents_append [of True initialState pre] pre
          feed_unterminated [OF h] Let_def prod.case snd_conv)
    have g: "createStreamGenerator parse r True =
                  (snd (feedContents True initialState pre)
                   @ (if a = [] then [] else [createStreamResponse a Main])
                   @ map (\<lambda>m. createStreamResponse m Thinking) (filter (\<lambda>m. m \<noteq> []) mids),
                   None)"
      unfolding gen out ..
    show ?thesis
      unfolding g fst_conv
      by (simp add: thinkingTexts_simps thinkingTexts_echo_only)
  qed
  from gen [of incl] span show ?thesis
    by blast
qed

theorem unterminated_span_is_not_flushed_witness:
  "body (streamResponse unterminatedStream Done) = Some \<lparr>reads = unterminatedStream, ending = Done\<rparr>
   \<and> ending \<lparr>reads = unterminatedStream, ending = Done\<rparr> = Done
   \<and> tagFree [] \<and> tagFree ''a'' \<and> list_all tagFree [''b'']
   \<and> streamContents exampleChunkParse (concat (reads \<lparr>reads = unterminatedStream, ending = Done\<rparr>))
       = [] @ [[] @ ''<thinking>'' @ ''a''] @ [''b'']
   \<and> createStreamGenerator exampleChunkParse (streamResponse unterminatedStream Done) True
       = ([createStreamResponse ''b'' Thinking], None)
   \<and> thinkingTexts (fst (createStreamGenerator exampleChunkParse (streamResponse unterminatedStream Done) True))
       = [''b'']"
proof -
  have h2: "tagFree []" and h3: "tagFree ''a''" and h4: "list_all tagFree [''b'']"
    by (simp_all add: tagFree_def)
  have h5: "body (streamResponse unterminatedStream Done) = Some \<lparr>reads = unterminatedStream, ending = Done\<rparr>"
    by (simp add: streamResponse_def)
  have c: "streamContents exampleChunkParse (concat unterminatedStream) = [''<thinking>a'', ''b'']"
    by code_simp
  have h6: "streamContents exampleChunkParse (concat (reads \<lparr>reads = unterminatedStream, ending = Done\<rparr>))
       = [] @ [[] @ ''<thinking>'' @ ''a''] @ [''b'']"
    using c by simp
  have h7: "ending \<lparr>reads = unterminatedStream, ending = Done\<rparr> = Done
            \<or> DoneLine \<in> set (map (lineKind exampleChunkParse)
                  (completeLines (concat (reads \<lparr>reads = unterminatedStream, ending = Done\<rparr>))))"
    by simp
  have e: "snd (feedContents True initialState []) = []"
    by simp
  from unterminated_span_is_not_flushed
         [OF h5 h7, where incl = True and a = "[]" and b = "''a''" and mids = "[''b'']" and pre = "[]"]
    h2 h3 h4 h6
  have "createStreamGenerator exampleChunkParse (streamResponse unterminatedStream Done) True =
                  (snd (feedContents True initialState [])
                   @ (if [] = ([] :: string) then [] else [createStreamResponse [] Main])
                   @ map (\<lambda>m. createStreamResponse m Thinking) (filter (\<lambda>m. m \<noteq> []) [''b'']),
                   None)
        \<and> thinkingTexts (fst (createStreamGenerator exampleChunkParse (streamResponse unterminatedStream Done) True))
                  = thinkingTexts (snd (feedContents True initialState [])) @ filter (\<lambda>m. m \<noteq> []) [''b'']"
    by blast
  with h2 h3 h4 h5 h6 show ?thesis
    by (simp add: thinkingTexts_simps(1,4))
qed

text \<open>
  Claim C2 as stated fails: after the record \<^verbatim>\<open><thinking>a\<close>, the record \<^verbatim>\<open>b\<close> and
  \<^verbatim>\<open>[DONE]\<close>, the thinking channel has carried \<^verbatim>\<open>b\<close>, a part of the span that is never
  closed.
\<close>

theorem unterminated_span_counterexample:
  "streamContents exampleChunkParse (concat unterminatedStream) = [''<thinking>a'', ''b'']
   \<and> createStreamGenerator exampleChunkParse (streamResponse unterminatedStream Done) True
       = ([createStreamResponse ''b'' Thinking], None)
   \<and> thinkingTexts (fst (createStreamGenerator exampleChunkParse (streamResponse unterminatedStream Done) True))
       \<noteq> []"
  by code_simp

section \<open>A record that is not JSON\<close>

lemma last_split_terminated: "last (split (s @ [c]) [c]) = []"
proof -
  have n: "c \<notin> set (last (split s [c]))" by (rule last_split_no_separator)
  have "split (last (split s [c]) @ [c]) [c] = [last (split s [c]), []]"
    using split_found [OF n, of "[]" "[]"] by (simp add: split_char_Nil)
  then show ?thesis
    by (subst split_append_char) simp
qed

lemma completeLines_after_newline:
  assumes "t1 = [] \<or> suffix [CHR 0x0A] t1"
  shows "completeLines (t1 @ t) = completeLines t1 @ completeLines t"
proof -
  have "last (split t1 [CHR 0x0A]) = []"
  proof (cases "t1 = []")
    case True
    then show ?thesis by (simp add: split_char_Nil)
  next
    case False
    with assms obtain s where "t1 = s @ [CHR 0x0A]"
      by (auto simp: suffix_def)
    then show ?thesis by (simp only: last_split_terminated)
  qed
  then show ?thesis
    using completeLines_append [of t1 t] by (simp add: completeLines_def)
qed

lemma completeLines_line:
  assumes "CHR 0x0A \<notin> set l"
  shows "completeLines (l @ [CHR 0x0A] @ t) = l # completeLines t"
  using split_found [OF assms, of "[]" t]
  by (simp add: completeLines_def split_nonempty)

lemma lineKind_malformed:
  assumes "parse d = None" "d \<noteq> ''[DONE]''"
  shows "lineKind parse (''data: '' @ d) = Ignored"
  using assms by (simp add: lineKind_def)

lemma contentsUntilDone_ignored:
  "contentsUntilDone (ks1 @ Ignored # ks2) = contentsUntilDone (ks1 @ ks2)"
  by (simp add: contentsUntilDone_append)

text \<open>
  Claim C6.  Take any stream, however it is cut into reads, with a complete record at the
  start of a line whose payload \<^verbatim>\<open>JSON.parse\<close> rejects.  The generator yields and completes
  exactly as it does on the stream without that record: the records before it and after it
  are delivered and the stream is not terminated.  (By \<open>createStreamGenerator_feed\<close> every
  record is decoded on its own, line by line.)
\<close>

theorem malformed_record_is_skipped:
  assumes "parse d = None" "d \<noteq> ''[DONE]''" "CHR 0x0A \<notin> set d"
    and "t1 = [] \<or> suffix [CHR 0x0A] t1"
    and "body r = Some bd" "concat (reads bd) = t1 @ (''data: '' @ d) @ [CHR 0x0A] @ t2"
    and "body r' = Some bd'" "concat (reads bd') = t1 @ t2" "ending bd' = ending bd"
  shows "createStreamGenerator parse r incl = createStreamGenerator parse r' incl"
proof -
  have nl: "CHR 0x0A \<notin> set (''data: '' @ d)"
    using assms(3) by simp
  have with_bad: "map (lineKind parse) (completeLines (concat (reads bd)))
        = map (lineKind parse) (completeLines t1) @ Ignored # map (lineKind parse) (completeLines t2)"
    unfolding assms(6) completeLines_after_newline [OF assms(4)] completeLines_line [OF nl]
    by (simp only: map_append list.map lineKind_malformed [of parse d, OF assms(1,2)])
  have without: "map (lineKind parse) (completeLines (concat (reads bd')))
        = map (lineKind parse) (completeLines t1) @ map (lineKind parse) (completeLines t2)"
    unfolding assms(8) completeLines_after_newline [OF assms(4)] by simp
  show ?thesis
    unfolding createStreamGenerator_feed [OF assms(5)] createStreamGenerator_feed [OF assms(7)]
      streamContents_def with_bad without assms(9)
    by (simp add: contentsUntilDone_ignored)
qed

theorem malformed_record_is_skipped_witness:
  "exampleChunkParse ''{oops'' = None \<and> ''{oops'' \<noteq> ''[DONE]'' \<and> CHR 0x0A \<notin> set ''{oops''
   \<and> suffix [CHR 0x0A] (sseRecord ''one'')
   \<and> body (streamResponse malformedStream Done) = Some \<lparr>reads = malformedStream, ending = Done\<rparr>
   \<and> concat (reads \<lparr>reads = malformedStream, ending = Done\<rparr>)
       = sseRecord ''one'' @ (''data: '' @ ''{oops'') @ [CHR 0x0A] @ ([CHR 0x0A] @ sseRecord ''two'')
   \<and> body (streamResponse wellFormedStream Done) = Some \<lparr>reads = wellFormedStream, ending = Done\<rparr>
   \<and> concat (reads \<lparr>reads = wellFormedStream, ending = Done\<rparr>)
       = sseRecord ''one'' @ ([CHR 0x0A] @ sseRecord ''two'')
   \<and> createStreamGenerator exampleChunkParse (streamResponse malformedStream Done) False
       = createStreamGenerator exampleChunkParse (streamResponse wellFormedStream Done) False
   \<and> createStreamGenerator exampleChunkParse (streamResponse malformedStream Done) False
       = ([createStreamResponse ''one'' Main, createStreamResponse ''two'' Main], None)"
proof -
  have h1: "exampleChunkParse ''{oops'' = None"
    by code_simp
  have h2: "''{oops'' \<noteq> ''[DONE]''" and h3: "CHR 0x0A \<notin> set ''{oops''"
    by simp_all
  have s: "suffix [CHR 0x0A] (sseRecord ''one'')"
    by (simp add: sseRecord_def suffix_def)
  then have h4: "sseRecord ''one'' = [] \<or> suffix [CHR 0x0A] (sseRecord ''one'')"
    by simp
  have h5: "body (streamResponse malformedStream Done) = Some \<lparr>reads = malformedStream, ending = Done\<rparr>"
    by (simp add: streamResponse_def)
  have h6: "concat (reads \<lparr>reads = malformedStream, ending = Done\<rparr>)
       = sseRecord ''one'' @ (''data: '' @ ''{oops'') @ [CHR 0x0A] @ ([CHR 0x0A] @ sseRecord ''two'')"
    by (simp add: malformedStream_def)
  have h7: "body (streamResponse wellFormedStream Done) = Some \<lparr>reads = wellFormedStream, ending = Done\<rparr>"
    by (simp add: streamResponse_def)
  have h8: "concat (reads \<lparr>reads = wellFormedStream, ending = Done\<rparr>)
       = sseRecord ''one'' @ ([CHR 0x0A] @ sseRecord ''two'')"
    by (simp add: wellFormedStream_def)
  have h9: "ending \<lparr>reads = wellFormedStream, ending = Done\<rparr> = ending \<lparr>reads = malformedStream, ending = Done\<rparr>"
    by simp
  have v: "createStreamGenerator exampleChunkParse (streamResponse wellFormedStream Done) False
       = ([createStreamResponse ''one'' Main, createStreamResponse ''two'' Main], None)"
    by code_simp
  from malformed_record_is_skipped [of exampleChunkParse "''{oops''", OF h1 h2 h3 h4 h5 h6 h7 h8 h9, of False]
    h1 h2 h3 s h5 h6 h7 h8 v
  show ?thesis
    by simp
qed

end
